theory Spec2Isabelle
  imports Complex_Main "HOL-Library.Word"
begin

section \<open>JavaScript numbers and typed arrays\<close>

text \<open>
  The restoration code computes with JavaScript numbers and stores into a
  \<^verbatim>\<open>Uint8ClampedArray\<close>. A finite number is modelled as an exact rational (no
  binary rounding of intermediate results), \<^verbatim>\<open>NaN\<close> as \<open>None\<close>. Reading a typed
  array outside its length gives \<^verbatim>\<open>undefined\<close>, which every arithmetic operation
  and comparison below converts to \<^verbatim>\<open>NaN\<close>; writing outside its length does
  nothing.
\<close>

type_synonym byte = "8 word"
type_synonym jsnum = "rat option"

fun js_sub :: "jsnum \<Rightarrow> jsnum \<Rightarrow> jsnum" where
  "js_sub (Some a) (Some b) = Some (a - b)"
| "js_sub _ _ = None"

fun js_mul :: "jsnum \<Rightarrow> jsnum \<Rightarrow> jsnum" where
  "js_mul (Some a) (Some b) = Some (a * b)"
| "js_mul _ _ = None"

text \<open>Infinity is not represented: a zero divisor gives \<open>None\<close>. The divisor of
  the restoration formula is never zero (it is at least 1/100).\<close>

fun js_div :: "jsnum \<Rightarrow> jsnum \<Rightarrow> jsnum" where
  "js_div (Some a) (Some b) = (if b = 0 then None else Some (a / b))"
| "js_div _ _ = None"

fun js_min :: "jsnum \<Rightarrow> jsnum \<Rightarrow> jsnum" where
  "js_min (Some a) (Some b) = Some (min a b)"
| "js_min _ _ = None"

fun js_max :: "jsnum \<Rightarrow> jsnum \<Rightarrow> jsnum" where
  "js_max (Some a) (Some b) = Some (max a b)"
| "js_max _ _ = None"

text \<open>\<^verbatim>\<open>a < b\<close>: false as soon as one side is \<^verbatim>\<open>NaN\<close>.\<close>

fun js_lt :: "jsnum \<Rightarrow> jsnum \<Rightarrow> bool" where
  "js_lt (Some a) (Some b) = (a < b)"
| "js_lt _ _ = False"

text \<open>\<^verbatim>\<open>Math.round\<close>: the nearest integer, a tie going up.\<close>

fun js_round :: "jsnum \<Rightarrow> jsnum" where
  "js_round (Some a) = Some (of_int \<lfloor>a + 1 / 2\<rfloor>)"
| "js_round None = None"

text \<open>The conversion a \<^verbatim>\<open>Uint8ClampedArray\<close> applies to a stored number:
  \<^verbatim>\<open>NaN\<close> becomes 0, the value is clamped to 0..255 and rounded to the nearest
  integer, a tie going to the even one.\<close>

definition ToUint8Clamp :: "jsnum \<Rightarrow> byte" where
  "ToUint8Clamp v =
     (case v of
        None \<Rightarrow> 0
      | Some number \<Rightarrow>
          (let clamped = min (max number 0) 255;
               f = \<lfloor>clamped\<rfloor>
           in if clamped < of_int f + 1 / 2 then word_of_int f
              else if of_int f + 1 / 2 < clamped then word_of_int (f + 1)
              else if even f then word_of_int f
              else word_of_int (f + 1)))"

definition u8_get :: "byte list \<Rightarrow> nat \<Rightarrow> jsnum" where
  "u8_get d i = (if i < length d then Some (of_nat (unat (d ! i))) else None)"

definition u8_set :: "byte list \<Rightarrow> nat \<Rightarrow> jsnum \<Rightarrow> byte list" where
  "u8_set d i v = (if i < length d then d[i := ToUint8Clamp v] else d)"

definition f32_get :: "rat list \<Rightarrow> nat \<Rightarrow> jsnum" where
  "f32_get d i = (if i < length d then Some (d ! i) else None)"

section \<open>Constants and data\<close>

definition MAX_ALPHA :: rat where
  "MAX_ALPHA = 99 / 100"

definition ALPHA_THRESHOLD :: rat where
  "ALPHA_THRESHOLD = 2 / 1000"

definition WATERMARK_SIZE_SMALL :: string where
  "WATERMARK_SIZE_SMALL = ''small''"

definition WATERMARK_SIZE_LARGE :: string where
  "WATERMARK_SIZE_LARGE = ''large''"

text \<open>The object both loaders return: \<^verbatim>\<open>{ width, height, data }\<close>, \<open>data\<close> a
  \<^verbatim>\<open>Float32Array\<close>.\<close>

record alpha_map =
  am_width :: nat
  am_height :: nat
  am_data :: "rat list"

datatype error = EngineNotReady | TypeError

section \<open>The canvas\<close>

text \<open>
  A canvas is an opaque browser object: the code reads its \<open>width\<close> and \<open>height\<close>
  and reaches its pixels only through \<^verbatim>\<open>getImageData\<close> and \<^verbatim>\<open>putImageData\<close>. Its
  bitmap is modelled as a function from column, row and channel (0..3 for R, G, B, A)
  to a byte, stored as plain (not premultiplied) RGBA. \<^verbatim>\<open>getImageData\<close> copies a
  rectangle into a fresh row-major RGBA array, a pixel outside the canvas reading as
  transparent black; \<^verbatim>\<open>putImageData\<close> copies such an array back, skipping pixels
  outside the canvas.
\<close>

record canvas =
  cv_width :: nat
  cv_height :: nat
  cv_bitmap :: "nat \<Rightarrow> nat \<Rightarrow> nat \<Rightarrow> byte"

definition getImageData :: "canvas \<Rightarrow> nat \<Rightarrow> nat \<Rightarrow> nat \<Rightarrow> nat \<Rightarrow> byte list" where
  "getImageData cv sx sy sw sh =
     map (\<lambda>k. let c = k mod 4; col = (k div 4) mod sw; row = (k div 4) div sw
               in if sx + col < cv_width cv \<and> sy + row < cv_height cv
                  then cv_bitmap cv (sx + col) (sy + row) c else 0)
         [0..<4 * sw * sh]"

definition putImageData :: "canvas \<Rightarrow> nat \<Rightarrow> nat \<Rightarrow> byte list \<Rightarrow> nat \<Rightarrow> nat \<Rightarrow> canvas" where
  "putImageData cv sw sh d dx dy =
     cv\<lparr>cv_bitmap :=
          (\<lambda>x y c. if dx \<le> x \<and> x < dx + sw \<and> dy \<le> y \<and> y < dy + sh
                       \<and> x < cv_width cv \<and> y < cv_height cv \<and> c < 4
                    then d ! (((y - dy) * sw + (x - dx)) * 4 + c)
                    else cv_bitmap cv x y c)\<rparr>"

section \<open>WatermarkEngine\<close>

record engine =
  alphaMaps_small :: "alpha_map option"
  alphaMaps_large :: "alpha_map option"
  ready :: bool
  logoValue :: rat

text \<open>The constructor.\<close>

definition engine_new :: engine where
  "engine_new = \<lparr>alphaMaps_small = None, alphaMaps_large = None, ready = False,
                  logoValue = 255\<rparr>"

text \<open>\<^verbatim>\<open>init\<close>: the two arguments stand for the outcome of loading and converting
  each background capture, \<open>None\<close> when the load failed. Both loads are awaited
  together, so either failure leaves the engine as it was and is rethrown; here the
  failed call returns \<open>None\<close>.\<close>

definition engine_init :: "engine \<Rightarrow> alpha_map option \<Rightarrow> alpha_map option \<Rightarrow> engine option" where
  "engine_init e smallImg largeImg =
     (case (smallImg, largeImg) of
        (Some s, Some l) \<Rightarrow>
          Some (e\<lparr>alphaMaps_small := Some s, alphaMaps_large := Some l, ready := True\<rparr>)
      | _ \<Rightarrow> None)"

record config =
  margin_right :: int
  margin_bottom :: int
  logo_size :: int
  cfg_size :: int

definition getWatermarkConfigLarge :: config where
  "getWatermarkConfigLarge =
     \<lparr>margin_right = 64, margin_bottom = 64, logo_size = 96, cfg_size = 96\<rparr>"

definition getWatermarkConfigSmall :: config where
  "getWatermarkConfigSmall =
     \<lparr>margin_right = 32, margin_bottom = 32, logo_size = 48, cfg_size = 48\<rparr>"

definition getWatermarkConfig :: "nat \<Rightarrow> nat \<Rightarrow> config" where
  "getWatermarkConfig width height =
     (if width > 1024 \<and> height > 1024 then getWatermarkConfigLarge
      else getWatermarkConfigSmall)"

text \<open>The choice at the head of \<^verbatim>\<open>process\<close>. \<open>forceSize\<close> is \<^verbatim>\<open>null\<close> (\<open>None\<close>)
  or a string; \<^verbatim>\<open>null\<close> and the empty string are falsy.\<close>

definition engine_config :: "string option \<Rightarrow> nat \<Rightarrow> nat \<Rightarrow> config" where
  "engine_config forceSize width height =
     (if forceSize \<noteq> None \<and> forceSize \<noteq> Some ''''
      then (if forceSize = Some WATERMARK_SIZE_LARGE then getWatermarkConfigLarge
            else getWatermarkConfigSmall)
      else getWatermarkConfig width height)"

text \<open>The alpha used for one entry of the map: scaled by the intensity, then clamped.\<close>

definition engine_alpha :: "rat \<Rightarrow> rat \<Rightarrow> rat" where
  "engine_alpha a intensity = (let rawAlpha = a * intensity in min rawAlpha MAX_ALPHA)"

text \<open>One colour channel: the value computed and clamped by \<^verbatim>\<open>Math.max\<close> and
  \<^verbatim>\<open>Math.min\<close>, then stored.\<close>

definition engine_value :: "rat \<Rightarrow> rat \<Rightarrow> jsnum \<Rightarrow> jsnum" where
  "engine_value alphaM oneMinusAlpha v =
     js_max (Some 0) (js_min (Some 255) (js_div (js_sub v (Some alphaM)) (Some oneMinusAlpha)))"

definition engine_channel :: "rat \<Rightarrow> rat \<Rightarrow> nat \<Rightarrow> byte list \<Rightarrow> byte list" where
  "engine_channel alphaM oneMinusAlpha k data =
     u8_set data k (engine_value alphaM oneMinusAlpha (u8_get data k))"

text \<open>The body of the loop over the alpha map, for entry \<open>i\<close> with value \<open>a\<close>.\<close>

definition engine_pixel :: "rat \<Rightarrow> rat \<Rightarrow> nat \<Rightarrow> rat \<Rightarrow> byte list \<Rightarrow> byte list" where
  "engine_pixel intensity logoV i a data =
     (let alpha = engine_alpha a intensity
      in if alpha < ALPHA_THRESHOLD then data
         else
           let alphaM = alpha * logoV;
               oneMinusAlpha = 1 - alpha;
               idx = i * 4;
               data = engine_channel alphaM oneMinusAlpha idx data;
               data = engine_channel alphaM oneMinusAlpha (idx + 1) data;
               data = engine_channel alphaM oneMinusAlpha (idx + 2) data
           in data)"

definition engine_loop :: "rat \<Rightarrow> rat \<Rightarrow> rat list \<Rightarrow> byte list \<Rightarrow> byte list" where
  "engine_loop intensity logoV alphas data =
     fold (\<lambda>i data. engine_pixel intensity logoV i (alphas ! i) data) [0..<length alphas] data"

text \<open>\<^verbatim>\<open>process\<close> mutates the canvas; the model returns the canvas afterwards, or the
  error thrown. A missing alpha map in a ready engine would be a \<^verbatim>\<open>TypeError\<close> at
  the loop head.\<close>

definition engine_process :: "engine \<Rightarrow> canvas \<Rightarrow> string option \<Rightarrow> rat \<Rightarrow> error + canvas" where
  "engine_process e cv forceSize intensity =
     (if \<not> ready e then Inl EngineNotReady
      else
        let width = cv_width cv;
            height = cv_height cv;
            config = engine_config forceSize width height;
            alphaMap = (if cfg_size config = 96 then alphaMaps_large e else alphaMaps_small e);
            roiX = int width - margin_right config - logo_size config;
            roiY = int height - margin_bottom config - logo_size config
        in if roiX < 0 \<or> roiY < 0 then Inr cv
           else
             let n = nat (logo_size config);
                 data = getImageData cv (nat roiX) (nat roiY) n n
             in case alphaMap of
                  None \<Rightarrow> Inl TypeError
                | Some am \<Rightarrow>
                    Inr (putImageData cv n n (engine_loop intensity (logoValue e) (am_data am) data)
                           (nat roiX) (nat roiY)))"

section \<open>WatermarkProcessor\<close>

record processor =
  alphaMap48 :: "alpha_map option"
  alphaMap96 :: "alpha_map option"
  isReady :: bool

definition processor_new :: processor where
  "processor_new = \<lparr>alphaMap48 = None, alphaMap96 = None, isReady = False\<rparr>"

text \<open>\<^verbatim>\<open>init\<close> loads the two maps one after the other and swallows a failure: what
  was loaded before it stays, and \<open>isReady\<close> stays false.\<close>

definition processor_init :: "processor \<Rightarrow> alpha_map option \<Rightarrow> alpha_map option \<Rightarrow> processor" where
  "processor_init p m48 m96 =
     (case m48 of
        None \<Rightarrow> p
      | Some a \<Rightarrow>
          (case m96 of
             None \<Rightarrow> p\<lparr>alphaMap48 := Some a\<rparr>
           | Some b \<Rightarrow> p\<lparr>alphaMap48 := Some a, alphaMap96 := Some b, isReady := True\<rparr>))"

record image_data =
  id_width :: nat
  id_height :: nat
  id_data :: "byte list"

record pconfig =
  pc_size :: int
  pc_margin :: int
  pc_x :: int
  pc_y :: int

definition processor_config :: "nat \<Rightarrow> nat \<Rightarrow> string \<Rightarrow> pconfig" where
  "processor_config width height forceMode =
     (let size = (if forceMode = ''48'' then 48
                  else if forceMode = ''96'' then 96
                  else if width > 1024 \<and> height > 1024 then 96 else 48);
          margin = (if size = 96 then 64 else 32)
      in \<lparr>pc_size = size, pc_margin = margin,
          pc_x = int width - margin - size, pc_y = int height - margin - size\<rparr>)"

text \<open>One colour channel of the inner loop.\<close>

definition processor_value :: "jsnum \<Rightarrow> jsnum \<Rightarrow> rat \<Rightarrow> jsnum \<Rightarrow> jsnum" where
  "processor_value safeAlpha oneMinusAlpha logoV watermarked =
     (let original = js_div (js_sub watermarked (js_mul safeAlpha (Some logoV))) oneMinusAlpha
      in js_max (Some 0) (js_min (Some 255) (js_round original)))"

definition processor_channel :: "jsnum \<Rightarrow> jsnum \<Rightarrow> rat \<Rightarrow> nat \<Rightarrow> nat \<Rightarrow> byte list \<Rightarrow> byte list" where
  "processor_channel safeAlpha oneMinusAlpha logoV pixelIndex c data =
     u8_set data (pixelIndex + c)
       (processor_value safeAlpha oneMinusAlpha logoV (u8_get data (pixelIndex + c)))"

text \<open>The body of the two nested loops, at \<open>row\<close> and \<open>col\<close> of the map.\<close>

definition processor_pixel ::
  "pconfig \<Rightarrow> nat \<Rightarrow> nat \<Rightarrow> alpha_map \<Rightarrow> rat \<Rightarrow> nat \<Rightarrow> nat \<Rightarrow> nat \<Rightarrow> byte list \<Rightarrow> byte list" where
  "processor_pixel config width height alphaMap logoV mapSize row col data =
     (let imgX = pc_x config + int col;
          imgY = pc_y config + int row
      in if imgX < 0 \<or> imgX \<ge> int width \<or> imgY < 0 \<or> imgY \<ge> int height then data
         else
           let alpha = f32_get (am_data alphaMap) (row * mapSize + col)
           in if js_lt alpha (Some ALPHA_THRESHOLD) then data
              else
                let safeAlpha = js_min alpha (Some MAX_ALPHA);
                    oneMinusAlpha = js_sub (Some 1) safeAlpha;
                    pixelIndex = nat ((imgY * int width + imgX) * 4)
                in fold (processor_channel safeAlpha oneMinusAlpha logoV pixelIndex) [0..<3] data)"

definition processor_loop ::
  "pconfig \<Rightarrow> nat \<Rightarrow> nat \<Rightarrow> alpha_map \<Rightarrow> rat \<Rightarrow> nat \<Rightarrow> byte list \<Rightarrow> byte list" where
  "processor_loop config width height alphaMap logoV mapSize data =
     fold (\<lambda>row data.
             fold (\<lambda>col data.
                     processor_pixel config width height alphaMap logoV mapSize row col data)
               [0..<mapSize] data)
       [0..<mapSize] data"

text \<open>\<^verbatim>\<open>process\<close> has no \<^verbatim>\<open>throw\<close> and no access that can fail: every path
  returns the image it was given, mutated or not. The result type is the engine's, so
  that the two can be compared.\<close>

definition processor_process ::
  "processor \<Rightarrow> image_data \<Rightarrow> string \<Rightarrow> rat \<Rightarrow> error + image_data" where
  "processor_process p imageData forceMode logoV =
     (let width = id_width imageData;
          height = id_height imageData;
          config = processor_config width height forceMode;
          alphaMap = (if pc_size config = 96 then alphaMap96 p else alphaMap48 p)
      in case alphaMap of
           None \<Rightarrow> Inr imageData
         | Some am \<Rightarrow>
             Inr (imageData\<lparr>id_data :=
                    processor_loop config width height am logoV (nat (pc_size config))
                      (id_data imageData)\<rparr>))"

section \<open>Regions, restored values and the formulas of the specification\<close>

text \<open>The byte each implementation stores for a colour channel that held \<open>v\<close>, at
  an alpha that passed the threshold.\<close>

definition engine_restored :: "rat \<Rightarrow> rat \<Rightarrow> byte \<Rightarrow> byte" where
  "engine_restored alpha logoV v =
     ToUint8Clamp (engine_value (alpha * logoV) (1 - alpha) (Some (of_nat (unat v))))"

definition processor_restored :: "jsnum \<Rightarrow> rat \<Rightarrow> byte \<Rightarrow> byte" where
  "processor_restored alpha logoV v =
     (let safeAlpha = js_min alpha (Some MAX_ALPHA)
      in ToUint8Clamp (processor_value safeAlpha (js_sub (Some 1) safeAlpha) logoV
                         (Some (of_nat (unat v)))))"

text \<open>The region of interest of an engine call, the logo size and the alpha map it
  selects, as \<^verbatim>\<open>process\<close> computes them.\<close>

definition engine_roiX :: "string option \<Rightarrow> canvas \<Rightarrow> int" where
  "engine_roiX forceSize cv =
     (let config = engine_config forceSize (cv_width cv) (cv_height cv)
      in int (cv_width cv) - margin_right config - logo_size config)"

definition engine_roiY :: "string option \<Rightarrow> canvas \<Rightarrow> int" where
  "engine_roiY forceSize cv =
     (let config = engine_config forceSize (cv_width cv) (cv_height cv)
      in int (cv_height cv) - margin_bottom config - logo_size config)"

definition engine_logo :: "string option \<Rightarrow> canvas \<Rightarrow> nat" where
  "engine_logo forceSize cv = nat (logo_size (engine_config forceSize (cv_width cv) (cv_height cv)))"

definition engine_alphaMap :: "engine \<Rightarrow> string option \<Rightarrow> canvas \<Rightarrow> alpha_map option" where
  "engine_alphaMap e forceSize cv =
     (if cfg_size (engine_config forceSize (cv_width cv) (cv_height cv)) = 96
      then alphaMaps_large e else alphaMaps_small e)"

definition engine_in_roi :: "string option \<Rightarrow> canvas \<Rightarrow> nat \<Rightarrow> nat \<Rightarrow> bool" where
  "engine_in_roi forceSize cv x y =
     (let roiX = engine_roiX forceSize cv;
          roiY = engine_roiY forceSize cv;
          n = int (engine_logo forceSize cv)
      in roiX \<le> int x \<and> int x < roiX + n \<and> roiY \<le> int y \<and> int y < roiY + n)"

text \<open>The index of the alpha map entry the loop pairs with pixel \<open>(x, y)\<close> of the
  region.\<close>

definition engine_entry :: "string option \<Rightarrow> canvas \<Rightarrow> nat \<Rightarrow> nat \<Rightarrow> nat" where
  "engine_entry forceSize cv x y =
     nat (int y - engine_roiY forceSize cv) * engine_logo forceSize cv
       + nat (int x - engine_roiX forceSize cv)"

text \<open>The alpha map a processor call selects.\<close>

definition processor_alphaMap :: "processor \<Rightarrow> image_data \<Rightarrow> string \<Rightarrow> alpha_map option" where
  "processor_alphaMap p imageData forceMode =
     (if pc_size (processor_config (id_width imageData) (id_height imageData) forceMode) = 96
      then alphaMap96 p else alphaMap48 p)"

text \<open>The processor's loop body at map position \<open>p = (row, col)\<close> changes exactly
  the data indices in \<open>processor_hits\<close>. Read from the side of a data index \<open>j\<close>:
  \<open>processor_in_roi\<close> says that the pixel of \<open>j\<close> lies inside the image and inside
  the region of interest, \<open>processor_touched\<close> that \<open>j\<close> is moreover a colour channel,
  and \<open>processor_entry\<close> is the alpha map entry the loop reads for that pixel.\<close>

definition processor_hits :: "pconfig \<Rightarrow> nat \<Rightarrow> nat \<Rightarrow> alpha_map \<Rightarrow> nat \<Rightarrow> nat \<times> nat \<Rightarrow> nat set" where
  "processor_hits cfg w h am ms p =
     {j. 0 \<le> pc_x cfg + int (snd p) \<and> pc_x cfg + int (snd p) < int w
       \<and> 0 \<le> pc_y cfg + int (fst p) \<and> pc_y cfg + int (fst p) < int h
       \<and> \<not> js_lt (f32_get (am_data am) (fst p * ms + snd p)) (Some ALPHA_THRESHOLD)
       \<and> j div 4 = nat ((pc_y cfg + int (fst p)) * int w + (pc_x cfg + int (snd p)))
       \<and> j mod 4 < 3}"

definition processor_in_roi :: "pconfig \<Rightarrow> nat \<Rightarrow> nat \<Rightarrow> nat \<Rightarrow> nat \<Rightarrow> bool" where
  "processor_in_roi cfg w h ms j =
     (let col = int ((j div 4) mod w) - pc_x cfg;
          row = int ((j div 4) div w) - pc_y cfg
      in 0 < w \<and> (j div 4) div w < h \<and> 0 \<le> col \<and> col < int ms \<and> 0 \<le> row \<and> row < int ms)"

definition processor_touched :: "pconfig \<Rightarrow> nat \<Rightarrow> nat \<Rightarrow> nat \<Rightarrow> nat \<Rightarrow> bool" where
  "processor_touched cfg w h ms j = (processor_in_roi cfg w h ms j \<and> j mod 4 < 3)"

definition processor_entry :: "pconfig \<Rightarrow> nat \<Rightarrow> alpha_map \<Rightarrow> nat \<Rightarrow> nat \<Rightarrow> jsnum" where
  "processor_entry cfg w am ms j =
     (let col = int ((j div 4) mod w) - pc_x cfg;
          row = int ((j div 4) div w) - pc_y cfg
      in f32_get (am_data am) (nat row * ms + nat col))"

text \<open>One byte of the outcome of a call: channel \<open>c\<close> of canvas pixel \<open>(x, y)\<close>
  after the engine, data index \<open>j\<close> of the image the processor returns; \<open>None\<close>
  when the call threw.\<close>

definition engine_result_byte ::
  "engine \<Rightarrow> canvas \<Rightarrow> string option \<Rightarrow> rat \<Rightarrow> nat \<Rightarrow> nat \<Rightarrow> nat \<Rightarrow> byte option" where
  "engine_result_byte e cv forceSize intensity x y c =
     (case engine_process e cv forceSize intensity of
        Inl err \<Rightarrow> None
      | Inr cv' \<Rightarrow> Some (cv_bitmap cv' x y c))"

definition processor_result_byte ::
  "processor \<Rightarrow> image_data \<Rightarrow> string \<Rightarrow> rat \<Rightarrow> nat \<Rightarrow> byte option" where
  "processor_result_byte p img forceMode logoV j =
     (case processor_process p img forceMode logoV of
        Inl err \<Rightarrow> None
      | Inr img' \<Rightarrow> Some (id_data img' ! j))"

text \<open>The specification's formulas: the synthetic watermark
  \<open>original * (1 - alpha) + alpha * 255\<close>, the restored value
  \<open>(watermarked - alpha * 255) / (1 - alpha)\<close> clamped to 0..255, a byte that is a
  nearest integer to a number, and two bytes that differ by at most one.\<close>

definition clamp255 :: "rat \<Rightarrow> rat" where
  "clamp255 z = max 0 (min 255 z)"

definition spec_composite :: "rat \<Rightarrow> rat \<Rightarrow> rat" where
  "spec_composite original alpha = original * (1 - alpha) + alpha * 255"

definition spec_restored :: "rat \<Rightarrow> rat \<Rightarrow> rat" where
  "spec_restored alpha watermarked = clamp255 ((watermarked - alpha * 255) / (1 - alpha))"

definition nearest_byte :: "byte \<Rightarrow> rat \<Rightarrow> bool" where
  "nearest_byte b z = (\<bar>of_nat (unat b) - z\<bar> \<le> 1 / 2)"

definition within_one :: "byte \<Rightarrow> byte \<Rightarrow> bool" where
  "within_one a b = (\<bar>int (unat a) - int (unat b)\<bar> \<le> 1)"

section \<open>Example inputs\<close>

text \<open>An alpha map of one opacity everywhere, a canvas and an image of one byte value
  everywhere, and an engine and a processor that loaded such maps.\<close>

definition flat_map :: "nat \<Rightarrow> rat \<Rightarrow> alpha_map" where
  "flat_map n a = \<lparr>am_width = n, am_height = n, am_data = replicate (n * n) a\<rparr>"

definition flat_canvas :: "nat \<Rightarrow> nat \<Rightarrow> byte \<Rightarrow> canvas" where
  "flat_canvas w h v = \<lparr>cv_width = w, cv_height = h, cv_bitmap = (\<lambda>x y c. v)\<rparr>"

definition flat_image :: "nat \<Rightarrow> nat \<Rightarrow> byte \<Rightarrow> image_data" where
  "flat_image w h v = \<lparr>id_width = w, id_height = h, id_data = replicate (4 * w * h) v\<rparr>"

definition loaded_engine :: "rat \<Rightarrow> engine" where
  "loaded_engine a =
     engine_new\<lparr>alphaMaps_small := Some (flat_map 48 a), alphaMaps_large := Some (flat_map 96 a),
                ready := True\<rparr>"

definition loaded_processor :: "rat \<Rightarrow> processor" where
  "loaded_processor a =
     processor_init processor_new (Some (flat_map 48 a)) (Some (flat_map 96 a))"

section \<open>The loops, index by index\<close>

lemma length_u8_set [simp]: "length (u8_set d i v) = length d"
  by (simp add: u8_set_def)

lemma length_engine_channel [simp]: "length (engine_channel aM oM k d) = length d"
  by (simp add: engine_channel_def)

lemma length_engine_pixel [simp]: "length (engine_pixel t lv i a d) = length d"
  by (simp add: engine_pixel_def Let_def)

lemma engine_channel_nth:
  "j < length d \<Longrightarrow>
   engine_channel aM oM k d ! j =
     (if j = k then ToUint8Clamp (engine_value aM oM (Some (of_nat (unat (d ! j))))) else d ! j)"
  by (simp add: engine_channel_def u8_set_def u8_get_def)

lemma quad_index:
  "(j = i * 4 \<or> j = i * 4 + 1 \<or> j = i * 4 + 2) = (j div 4 = i \<and> j mod 4 < (3::nat))"
proof
  have r: "\<And>r. r < 3 \<Longrightarrow> (i * 4 + r) div 4 = i \<and> (i * 4 + r) mod 4 < (3::nat)" by simp
  assume "j = i * 4 \<or> j = i * 4 + 1 \<or> j = i * 4 + 2"
  then show "j div 4 = i \<and> j mod 4 < 3"
    using r [of 0] r [of 1] r [of 2] by (elim disjE) simp_all
next
  assume a: "j div 4 = i \<and> j mod 4 < 3"
  have "j = j div 4 * 4 + j mod 4" by simp
  with a have j: "j = i * 4 + j mod 4" by simp
  from a have "j mod 4 = 0 \<or> j mod 4 = 1 \<or> j mod 4 = 2" by linarith
  with j show "j = i * 4 \<or> j = i * 4 + 1 \<or> j = i * 4 + 2" by linarith
qed

lemma engine_pixel_unfold:
  "engine_pixel t lv i a d =
     (if engine_alpha a t < ALPHA_THRESHOLD then d
      else engine_channel (engine_alpha a t * lv) (1 - engine_alpha a t) (i * 4 + 2)
             (engine_channel (engine_alpha a t * lv) (1 - engine_alpha a t) (i * 4 + 1)
                (engine_channel (engine_alpha a t * lv) (1 - engine_alpha a t) (i * 4) d)))"
  by (simp add: engine_pixel_def Let_def)

lemma engine_pixel_nth:
  "j < length d \<Longrightarrow>
   engine_pixel t lv i a d ! j =
     (if j \<in> {j. \<not> engine_alpha a t < ALPHA_THRESHOLD \<and> j div 4 = i \<and> j mod 4 < 3}
      then engine_restored (engine_alpha a t) lv (d ! j) else d ! j)"
  unfolding quad_index [symmetric] mem_Collect_eq engine_pixel_unfold
  by (simp add: engine_channel_nth engine_restored_def)

lemma fold_length:
  assumes len: "\<And>p d. length (f p d) = length d"
  shows "length (fold f ps d) = length d"
  by (induction ps arbitrary: d) (simp_all add: len)

lemma fold_miss:
  assumes pt: "\<And>p d k. k < length d \<Longrightarrow> f p d ! k = (if k \<in> S p then G p (d ! k) else d ! k)"
      and len: "\<And>p d. length (f p d) = length d"
  shows "(\<And>p. p \<in> set ps \<Longrightarrow> k \<notin> S p) \<Longrightarrow> k < length d \<Longrightarrow> fold f ps d ! k = d ! k"
proof (induction ps arbitrary: d)
  case Nil
  then show ?case by simp
next
  case (Cons q ps)
  have "fold f ps (f q d) ! k = f q d ! k"
    using Cons.prems by (intro Cons.IH) (simp_all add: len)
  also have "\<dots> = d ! k"
    using Cons.prems by (simp add: pt)
  finally show ?case by simp
qed

lemma fold_hit:
  assumes pt: "\<And>p d k. k < length d \<Longrightarrow> f p d ! k = (if k \<in> S p then G p (d ! k) else d ! k)"
      and len: "\<And>p d. length (f p d) = length d"
  shows "distinct ps \<Longrightarrow> (\<And>p q. p \<in> set ps \<Longrightarrow> q \<in> set ps \<Longrightarrow> p \<noteq> q \<Longrightarrow> S p \<inter> S q = {}) \<Longrightarrow>
         p \<in> set ps \<Longrightarrow> k \<in> S p \<Longrightarrow> k < length d \<Longrightarrow> fold f ps d ! k = G p (d ! k)"
proof (induction ps arbitrary: d)
  case Nil
  then show ?case by simp
next
  case (Cons q ps)
  show ?case
  proof (cases "p = q")
    case True
    have miss: "\<And>r. r \<in> set ps \<Longrightarrow> k \<notin> S r"
    proof -
      fix r assume r: "r \<in> set ps"
      with Cons.prems(1) have "r \<noteq> q" by auto
      with Cons.prems(2) [of q r] r have "S q \<inter> S r = {}" by simp
      with Cons.prems(4) True show "k \<notin> S r" by auto
    qed
    have "fold f ps (f q d) ! k = f q d ! k"
      using miss Cons.prems(5) by (intro fold_miss [where S = S and G = G]) (simp_all add: pt len)
    also have "\<dots> = G p (d ! k)"
      using Cons.prems True by (simp add: pt)
    finally show ?thesis by simp
  next
    case False
    with Cons.prems have pin: "p \<in> set ps" by simp
    from False Cons.prems(2) [of p q] pin have "S p \<inter> S q = {}" by simp
    with Cons.prems(4) have kq: "k \<notin> S q" by auto
    have "fold f ps (f q d) ! k = G p (f q d ! k)"
      using Cons.prems pin by (intro Cons.IH) (simp_all add: len)
    also have "\<dots> = G p (d ! k)"
      using kq Cons.prems(5) by (simp add: pt)
    finally show ?thesis by simp
  qed
qed

lemma engine_loop_length [simp]: "length (engine_loop t lv as d) = length d"
  unfolding engine_loop_def by (rule fold_length) simp

lemma engine_loop_nth:
  assumes j: "j < length d"
  shows "engine_loop t lv as d ! j =
     (if j div 4 < length as \<and> j mod 4 < 3 \<and> \<not> engine_alpha (as ! (j div 4)) t < ALPHA_THRESHOLD
      then engine_restored (engine_alpha (as ! (j div 4)) t) lv (d ! j) else d ! j)"
proof -
  let ?f = "\<lambda>i data. engine_pixel t lv i (as ! i) data"
  let ?S = "\<lambda>i. {j. \<not> engine_alpha (as ! i) t < ALPHA_THRESHOLD \<and> j div 4 = i \<and> j mod 4 < 3}"
  let ?G = "\<lambda>i. engine_restored (engine_alpha (as ! i) t) lv"
  have pt: "\<And>p d k. k < length d \<Longrightarrow> ?f p d ! k = (if k \<in> ?S p then ?G p (d ! k) else d ! k)"
    by (rule engine_pixel_nth)
  have len: "\<And>p d. length (?f p d) = length d" by simp
  show ?thesis
  proof (cases "j div 4 < length as \<and> j mod 4 < 3 \<and> \<not> engine_alpha (as ! (j div 4)) t < ALPHA_THRESHOLD")
    case True
    have "fold ?f [0..<length as] d ! j = ?G (j div 4) (d ! j)"
    proof (rule fold_hit [where S = ?S and G = ?G and p = "j div 4", OF pt len])
      show "distinct [0..<length as]" by simp
      show "j div 4 \<in> set [0..<length as]" using True by simp
      show "j \<in> ?S (j div 4)" using True by simp
      show "j < length d" by (rule j)
      show "\<And>p q. p \<in> set [0..<length as] \<Longrightarrow> q \<in> set [0..<length as] \<Longrightarrow> p \<noteq> q \<Longrightarrow> ?S p \<inter> ?S q = {}"
        by auto
    qed
    with True show ?thesis by (simp add: engine_loop_def)
  next
    case False
    have "fold ?f [0..<length as] d ! j = d ! j"
    proof (rule fold_miss [where S = ?S and G = ?G, OF pt len _ j])
      fix p assume "p \<in> set [0..<length as]"
      with False show "j \<notin> ?S p" by auto
    qed
    with False show ?thesis by (auto simp add: engine_loop_def)
  qed
qed

lemma roi_index_less:
  assumes "row < n" "col < n" "c < (4::nat)"
  shows "(row * n + col) * 4 + c < 4 * n * n"
proof -
  have "row * n + col < row * n + n" using assms by simp
  also have "\<dots> = Suc row * n" by simp
  also have "\<dots> \<le> n * n" using assms by (intro mult_le_mono1) simp
  finally have "row * n + col < n * n" .
  then have "(row * n + col) * 4 + 4 \<le> n * n * 4" by simp
  with assms show ?thesis by simp
qed

lemma quad_div_mod:
  assumes "c < (4::nat)"
  shows "(i * 4 + c) div 4 = i" "(i * 4 + c) mod 4 = c"
  using assms by simp_all

lemma roi_index_row_col:
  assumes "col < (n::nat)"
  shows "(row * n + col) div n = row" "(row * n + col) mod n = col"
  using assms by simp_all

lemma getImageData_nth:
  assumes "row < n" "col < n" "c < 4" "sx + n \<le> cv_width cv" "sy + n \<le> cv_height cv"
  shows "getImageData cv sx sy n n ! ((row * n + col) * 4 + c) = cv_bitmap cv (sx + col) (sy + row) c"
proof -
  define i where "i = row * n + col"
  have k: "i * 4 + c < 4 * n * n"
    unfolding i_def using assms by (intro roi_index_less)
  have "getImageData cv sx sy n n ! (i * 4 + c) =
        (if sx + i mod n < cv_width cv \<and> sy + i div n < cv_height cv
         then cv_bitmap cv (sx + i mod n) (sy + i div n) c else 0)"
    unfolding getImageData_def using k assms(3)
    by (simp only: nth_map length_upt nth_upt diff_zero add_0 Let_def quad_div_mod)
  also have "\<dots> = cv_bitmap cv (sx + col) (sy + row) c"
    unfolding i_def using assms by (simp add: roi_index_row_col)
  finally show ?thesis unfolding i_def .
qed

lemma length_getImageData [simp]: "length (getImageData cv sx sy sw sh) = 4 * sw * sh"
  by (simp add: getImageData_def)

lemma engine_config_cases:
  "engine_config fs w h = getWatermarkConfigLarge \<or> engine_config fs w h = getWatermarkConfigSmall"
  by (simp add: engine_config_def getWatermarkConfig_def)

lemma engine_roi_inside:
  assumes "0 \<le> engine_roiX fs cv" "0 \<le> engine_roiY fs cv"
  shows "nat (engine_roiX fs cv) + engine_logo fs cv \<le> cv_width cv"
    and "nat (engine_roiY fs cv) + engine_logo fs cv \<le> cv_height cv"
  using assms engine_config_cases [of fs "cv_width cv" "cv_height cv"]
  by (auto simp: engine_roiX_def engine_roiY_def engine_logo_def
        getWatermarkConfigLarge_def getWatermarkConfigSmall_def)

lemma engine_process_run:
  assumes "ready e" "engine_alphaMap e fs cv = Some am"
      and "0 \<le> engine_roiX fs cv" "0 \<le> engine_roiY fs cv"
  shows "engine_process e cv fs t =
         Inr (putImageData cv (engine_logo fs cv) (engine_logo fs cv)
                (engine_loop t (logoValue e) (am_data am)
                   (getImageData cv (nat (engine_roiX fs cv)) (nat (engine_roiY fs cv))
                      (engine_logo fs cv) (engine_logo fs cv)))
                (nat (engine_roiX fs cv)) (nat (engine_roiY fs cv)))"
  using assms
  by (simp add: engine_process_def engine_roiX_def engine_roiY_def engine_logo_def
        engine_alphaMap_def Let_def)

lemma engine_process_bitmap:
  assumes "ready e" "engine_alphaMap e fs cv = Some am"
      and "0 \<le> engine_roiX fs cv" "0 \<le> engine_roiY fs cv"
  shows "engine_process e cv fs t =
         Inr (cv\<lparr>cv_bitmap := \<lambda>x y c.
                (let rx = nat (engine_roiX fs cv); ry = nat (engine_roiY fs cv);
                     n = engine_logo fs cv; i = (y - ry) * n + (x - rx)
                 in if rx \<le> x \<and> x < rx + n \<and> ry \<le> y \<and> y < ry + n \<and> c < 3
                       \<and> i < length (am_data am)
                       \<and> \<not> engine_alpha (am_data am ! i) t < ALPHA_THRESHOLD
                    then engine_restored (engine_alpha (am_data am ! i) t) (logoValue e)
                           (cv_bitmap cv x y c)
                    else cv_bitmap cv x y c)\<rparr>)"
proof -
  define rx where "rx = nat (engine_roiX fs cv)"
  define ry where "ry = nat (engine_roiY fs cv)"
  define n where "n = engine_logo fs cv"
  define d where "d = getImageData cv rx ry n n"
  have inside: "rx + n \<le> cv_width cv" "ry + n \<le> cv_height cv"
    unfolding rx_def ry_def n_def using assms(3,4) by (rule engine_roi_inside)+
  have "putImageData cv n n (engine_loop t (logoValue e) (am_data am) d) rx ry =
        cv\<lparr>cv_bitmap := \<lambda>x y c.
             (let i = (y - ry) * n + (x - rx)
              in if rx \<le> x \<and> x < rx + n \<and> ry \<le> y \<and> y < ry + n \<and> c < 3
                    \<and> i < length (am_data am)
                    \<and> \<not> engine_alpha (am_data am ! i) t < ALPHA_THRESHOLD
                 then engine_restored (engine_alpha (am_data am ! i) t) (logoValue e)
                        (cv_bitmap cv x y c)
                 else cv_bitmap cv x y c)\<rparr>"
    unfolding putImageData_def
  proof (intro arg_cong [where f = "\<lambda>b. cv\<lparr>cv_bitmap := b\<rparr>"] ext)
    fix x y c
    define i where "i = (y - ry) * n + (x - rx)"
    show "(if rx \<le> x \<and> x < rx + n \<and> ry \<le> y \<and> y < ry + n \<and> x < cv_width cv \<and> y < cv_height cv \<and> c < 4
           then engine_loop t (logoValue e) (am_data am) d ! (((y - ry) * n + (x - rx)) * 4 + c)
           else cv_bitmap cv x y c) =
          (let i = (y - ry) * n + (x - rx)
           in if rx \<le> x \<and> x < rx + n \<and> ry \<le> y \<and> y < ry + n \<and> c < 3
                 \<and> i < length (am_data am)
                 \<and> \<not> engine_alpha (am_data am ! i) t < ALPHA_THRESHOLD
              then engine_restored (engine_alpha (am_data am ! i) t) (logoValue e)
                     (cv_bitmap cv x y c)
              else cv_bitmap cv x y c)"
    proof (cases "rx \<le> x \<and> x < rx + n \<and> ry \<le> y \<and> y < ry + n \<and> c < 4")
      case False
      then show ?thesis by (auto simp: Let_def)
    next
      case True
      then have row: "y - ry < n" and col: "x - rx < n" and c: "c < 4" by auto
      have "i * 4 + c < 4 * n * n"
        unfolding i_def using row col c by (rule roi_index_less)
      then have k: "i * 4 + c < length d"
        unfolding d_def by (simp only: length_getImageData)
      have dk: "d ! (i * 4 + c) = cv_bitmap cv x y c"
        unfolding i_def d_def using getImageData_nth [OF row col c inside] True by simp
      have "engine_loop t (logoValue e) (am_data am) d ! (i * 4 + c) =
            (if i < length (am_data am) \<and> c < 3
                \<and> \<not> engine_alpha (am_data am ! i) t < ALPHA_THRESHOLD
             then engine_restored (engine_alpha (am_data am ! i) t) (logoValue e) (cv_bitmap cv x y c)
             else cv_bitmap cv x y c)"
        using engine_loop_nth [OF k, of t "logoValue e" "am_data am"] c
        by (simp only: quad_div_mod dk)
      with True inside show ?thesis
        unfolding i_def [symmetric] Let_def by auto
    qed
  qed
  then show ?thesis
    unfolding engine_process_run [OF assms] Let_def rx_def ry_def n_def d_def by simp
qed

lemma length_processor_channel [simp]: "length (processor_channel sa oma lv k c d) = length d"
  by (simp add: processor_channel_def)

lemma upt_0_3: "[0..<3] = [0, 1, 2::nat]"
  by (simp add: upt_rec)

lemma length_processor_pixel [simp]:
  "length (processor_pixel cfg w h am lv ms row col d) = length d"
  by (simp add: processor_pixel_def Let_def upt_0_3)

lemma processor_channel_nth:
  "j < length d \<Longrightarrow>
   processor_channel sa oma lv k c d ! j =
     (if j = k + c then ToUint8Clamp (processor_value sa oma lv (Some (of_nat (unat (d ! j)))))
      else d ! j)"
  by (simp add: processor_channel_def u8_set_def u8_get_def)

lemma processor_pixel_unfold:
  "processor_pixel cfg w h am lv ms row col d =
     (if pc_x cfg + int col < 0 \<or> pc_x cfg + int col \<ge> int w
         \<or> pc_y cfg + int row < 0 \<or> pc_y cfg + int row \<ge> int h
         \<or> js_lt (f32_get (am_data am) (row * ms + col)) (Some ALPHA_THRESHOLD) then d
      else
        processor_channel (js_min (f32_get (am_data am) (row * ms + col)) (Some MAX_ALPHA))
          (js_sub (Some 1) (js_min (f32_get (am_data am) (row * ms + col)) (Some MAX_ALPHA))) lv
          (nat ((pc_y cfg + int row) * int w + (pc_x cfg + int col)) * 4) 2
          (processor_channel (js_min (f32_get (am_data am) (row * ms + col)) (Some MAX_ALPHA))
             (js_sub (Some 1) (js_min (f32_get (am_data am) (row * ms + col)) (Some MAX_ALPHA))) lv
             (nat ((pc_y cfg + int row) * int w + (pc_x cfg + int col)) * 4) 1
             (processor_channel (js_min (f32_get (am_data am) (row * ms + col)) (Some MAX_ALPHA))
                (js_sub (Some 1) (js_min (f32_get (am_data am) (row * ms + col)) (Some MAX_ALPHA))) lv
                (nat ((pc_y cfg + int row) * int w + (pc_x cfg + int col)) * 4) 0 d)))"
proof -
  have "nat (((pc_y cfg + int row) * int w + (pc_x cfg + int col)) * 4) =
        nat ((pc_y cfg + int row) * int w + (pc_x cfg + int col)) * 4"
    by (simp add: nat_mult_distrib)
  then show ?thesis
    by (simp add: processor_pixel_def Let_def upt_0_3 del: of_nat_add of_nat_mult)
qed

lemma processor_pixel_nth:
  assumes "j < length d"
  shows "processor_pixel cfg w h am lv ms row col d ! j =
     (if j \<in> processor_hits cfg w h am ms (row, col)
      then processor_restored (f32_get (am_data am) (row * ms + col)) lv (d ! j) else d ! j)"
proof -
  have q: "(j = i * 4 + 0 \<or> j = i * 4 + 1 \<or> j = i * 4 + 2) = (j div 4 = i \<and> j mod 4 < 3)" for i
    using quad_index [of j i] by simp
  show ?thesis
    unfolding processor_hits_def mem_Collect_eq fst_conv snd_conv q [symmetric]
      processor_pixel_unfold
    using assms
    by (simp add: processor_channel_nth processor_restored_def Let_def not_le not_less
          del: of_nat_add of_nat_mult)
qed

lemma fold_product:
  "fold (\<lambda>r d. fold (\<lambda>c d. g r c d) cs d) rs d =
   fold (\<lambda>p d. g (fst p) (snd p) d) (List.product rs cs) d"
proof (induction rs arbitrary: d)
  case Nil
  then show ?case by simp
next
  case (Cons r rs)
  have "fold (\<lambda>p d. g (fst p) (snd p) d) (map (Pair r) cs) d = fold (\<lambda>c d. g r c d) cs d"
    by (simp add: fold_map comp_def)
  then show ?case by (simp add: Cons.IH)
qed

lemma processor_loop_product:
  "processor_loop cfg w h am lv ms d =
   fold (\<lambda>p d. processor_pixel cfg w h am lv ms (fst p) (snd p) d)
     (List.product [0..<ms] [0..<ms]) d"
  unfolding processor_loop_def by (rule fold_product)

lemma processor_loop_length [simp]: "length (processor_loop cfg w h am lv ms d) = length d"
  unfolding processor_loop_product by (rule fold_length) simp

lemma pixel_index_coords:
  assumes "0 \<le> X" "X < int w" "0 \<le> Y" "k = nat (Y * int w + X)"
  shows "int (k mod w) = X" "int (k div w) = Y"
proof -
  obtain x where x: "X = int x" using assms(1) by (metis nonneg_int_cases)
  obtain y where y: "Y = int y" using assms(3) by (metis nonneg_int_cases)
  have k: "k = y * w + x"
    using assms(4) unfolding x y by (simp add: nat_add_distrib nat_mult_distrib)
  have xw: "x < w" using assms(2) x by simp
  show "int (k mod w) = X" unfolding k x using xw by simp
  show "int (k div w) = Y" unfolding k y using xw by simp
qed

lemma processor_hits_coords:
  assumes "j \<in> processor_hits cfg w h am ms (row, col)"
  shows "int ((j div 4) mod w) = pc_x cfg + int col" "int ((j div 4) div w) = pc_y cfg + int row"
    and "(j div 4) div w < h" "0 < w" "j mod 4 < 3"
    and "\<not> js_lt (f32_get (am_data am) (row * ms + col)) (Some ALPHA_THRESHOLD)"
proof -
  from assms have a: "0 \<le> pc_x cfg + int col" "pc_x cfg + int col < int w"
      "0 \<le> pc_y cfg + int row" "pc_y cfg + int row < int h"
      "j div 4 = nat ((pc_y cfg + int row) * int w + (pc_x cfg + int col))"
      and b: "j mod 4 < 3" "\<not> js_lt (f32_get (am_data am) (row * ms + col)) (Some ALPHA_THRESHOLD)"
    by (simp_all add: processor_hits_def)
  show "int ((j div 4) mod w) = pc_x cfg + int col"
    by (rule pixel_index_coords(1) [OF a(1) a(2) a(3) a(5)])
  show y: "int ((j div 4) div w) = pc_y cfg + int row"
    by (rule pixel_index_coords(2) [OF a(1) a(2) a(3) a(5)])
  show "(j div 4) div w < h" using y a(4) by linarith
  show "0 < w" using a(1,2) by linarith
  show "j mod 4 < 3" "\<not> js_lt (f32_get (am_data am) (row * ms + col)) (Some ALPHA_THRESHOLD)"
    by (rule b)+
qed

lemma processor_hits_disjoint:
  assumes "p \<noteq> q"
  shows "processor_hits cfg w h am ms p \<inter> processor_hits cfg w h am ms q = {}"
proof (rule ccontr)
  assume "processor_hits cfg w h am ms p \<inter> processor_hits cfg w h am ms q \<noteq> {}"
  then obtain j where jp: "j \<in> processor_hits cfg w h am ms (fst p, snd p)"
    and jq: "j \<in> processor_hits cfg w h am ms (fst q, snd q)" by auto
  from processor_hits_coords(1,2) [OF jp] processor_hits_coords(1,2) [OF jq]
  have "fst p = fst q" "snd p = snd q" by linarith+
  with assms show False by (simp add: prod_eq_iff)
qed

lemma processor_loop_nth:
  assumes j: "j < length d"
  shows "processor_loop cfg w h am lv ms d ! j =
     (if processor_touched cfg w h ms j
         \<and> \<not> js_lt (processor_entry cfg w am ms j) (Some ALPHA_THRESHOLD)
      then processor_restored (processor_entry cfg w am ms j) lv (d ! j) else d ! j)"
proof -
  let ?f = "\<lambda>p d. processor_pixel cfg w h am lv ms (fst p) (snd p) d"
  let ?S = "processor_hits cfg w h am ms"
  let ?G = "\<lambda>p. processor_restored (f32_get (am_data am) (fst p * ms + snd p)) lv"
  let ?ps = "List.product [0..<ms] [0..<ms]"
  define col where "col = int ((j div 4) mod w) - pc_x cfg"
  define row where "row = int ((j div 4) div w) - pc_y cfg"
  have pt: "\<And>p d k. k < length d \<Longrightarrow> ?f p d ! k = (if k \<in> ?S p then ?G p (d ! k) else d ! k)"
    using processor_pixel_nth [of _ _ cfg w h am lv ms] by simp
  have len: "\<And>p d. length (?f p d) = length d" by simp
  have entry: "processor_entry cfg w am ms j = f32_get (am_data am) (nat row * ms + nat col)"
    by (simp add: processor_entry_def row_def col_def)
  have touched: "processor_touched cfg w h ms j =
      (0 < w \<and> (j div 4) div w < h \<and> 0 \<le> col \<and> col < int ms \<and> 0 \<le> row \<and> row < int ms
       \<and> j mod 4 < 3)"
    by (simp add: processor_touched_def processor_in_roi_def row_def col_def)
  show ?thesis
  proof (cases "processor_touched cfg w h ms j
                 \<and> \<not> js_lt (processor_entry cfg w am ms j) (Some ALPHA_THRESHOLD)")
    case True
    then have t: "0 < w" "(j div 4) div w < h" "0 \<le> col" "col < int ms" "0 \<le> row"
        "row < int ms" "j mod 4 < 3"
      and a: "\<not> js_lt (f32_get (am_data am) (nat row * ms + nat col)) (Some ALPHA_THRESHOLD)"
      unfolding touched entry by simp_all
    have x: "pc_x cfg + int (nat col) = int ((j div 4) mod w)"
      using t(3) by (simp add: col_def)
    have y: "pc_y cfg + int (nat row) = int ((j div 4) div w)"
      using t(5) by (simp add: row_def)
    have "int ((j div 4) div w) * int w + int ((j div 4) mod w) = int (j div 4)"
      by (simp flip: of_nat_mult of_nat_add)
    then have k: "j div 4 = nat (int ((j div 4) div w) * int w + int ((j div 4) mod w))"
      by simp
    have hit: "j \<in> ?S (nat row, nat col)"
      unfolding processor_hits_def mem_Collect_eq fst_conv snd_conv x y
      using t a k by simp
    have "fold ?f ?ps d ! j = ?G (nat row, nat col) (d ! j)"
    proof (rule fold_hit [where S = ?S and G = ?G and p = "(nat row, nat col)", OF pt len])
      show "distinct ?ps" by (simp add: distinct_product)
      have "nat row < ms" "nat col < ms" using t by linarith+
      then show "(nat row, nat col) \<in> set ?ps" by simp
      show "j \<in> ?S (nat row, nat col)" by (rule hit)
      show "j < length d" by (rule j)
      show "\<And>p q. p \<in> set ?ps \<Longrightarrow> q \<in> set ?ps \<Longrightarrow> p \<noteq> q \<Longrightarrow> ?S p \<inter> ?S q = {}"
        by (rule processor_hits_disjoint)
    qed
    with True show ?thesis
      unfolding processor_loop_product entry by simp
  next
    case False
    have "fold ?f ?ps d ! j = d ! j"
    proof (rule fold_miss [where S = ?S and G = ?G, OF pt len _ j])
      fix p assume p: "p \<in> set ?ps"
      show "j \<notin> ?S p"
      proof
        assume "j \<in> ?S p"
        then have jp: "j \<in> ?S (fst p, snd p)" by simp
        note c = processor_hits_coords [OF jp]
        have "col = int (snd p)" "row = int (fst p)"
          unfolding col_def row_def using c(1,2) by simp_all
        with c p have "processor_touched cfg w h ms j
            \<and> \<not> js_lt (processor_entry cfg w am ms j) (Some ALPHA_THRESHOLD)"
          unfolding touched entry by auto
        with False show False by simp
      qed
    qed
    with False show ?thesis
      unfolding processor_loop_product by auto
  qed
qed

lemma unat_byte_of_int:
  assumes "0 \<le> k" "k \<le> 255"
  shows "unat (word_of_int k :: byte) = nat k"
proof -
  have "uint (word_of_int k :: byte) = k"
    using assms by (simp add: uint_word_of_int take_bit_int_eq_self)
  then show ?thesis by (simp add: unat_eq_nat_uint)
qed

lemma ToUint8Clamp_nearest: "nearest_byte (ToUint8Clamp (Some z)) (clamp255 z)"
proof -
  define cl where "cl = min (max z 0) 255"
  define f where "f = \<lfloor>cl\<rfloor>"
  have cl: "0 \<le> cl" "cl \<le> 255" by (simp_all add: cl_def)
  have cl_eq: "clamp255 z = cl" by (simp add: clamp255_def cl_def min_def max_def)
  have f: "0 \<le> f" "f \<le> 255" "of_int f \<le> cl" "cl < of_int f + 1"
    unfolding f_def using cl by linarith+
  have val: "(unsigned (word_of_int k :: byte) :: rat) = of_int k" if "0 \<le> k" "k \<le> 255" for k
  proof -
    have "rat_of_nat (unat (word_of_int k :: byte)) = of_int k"
      using that by (simp add: unat_byte_of_int)
    then show ?thesis by simp
  qed
  have T: "ToUint8Clamp (Some z) =
      (if cl < of_int f + 1 / 2 then word_of_int f
       else if of_int f + 1 / 2 < cl then word_of_int (f + 1)
       else if even f then word_of_int f else word_of_int (f + 1))"
    unfolding ToUint8Clamp_def cl_def f_def Let_def by (simp only: option.case)
  have near_f: "nearest_byte (word_of_int f) cl" if "cl \<le> of_int f + 1 / 2"
    unfolding nearest_byte_def using that f by (simp add: val)
  have near_f1: "nearest_byte (word_of_int (f + 1)) cl" if "of_int f + 1 / 2 \<le> cl"
  proof -
    have "f + 1 \<le> 255"
    proof (rule ccontr)
      assume "\<not> f + 1 \<le> 255"
      with f have "f = 255" by simp
      with that cl show False by simp
    qed
    with f have "(unsigned (word_of_int (f + 1) :: byte) :: rat) = of_int f + 1"
      using val [of "f + 1"] by simp
    then show ?thesis
      unfolding nearest_byte_def using that f by simp
  qed
  consider "cl < of_int f + 1 / 2" | "of_int f + 1 / 2 < cl" | "cl = of_int f + 1 / 2"
    by linarith
  then show ?thesis
  proof cases
    case 1
    then show ?thesis unfolding cl_eq T using near_f by simp
  next
    case 2
    then show ?thesis unfolding cl_eq T using near_f1 by simp
  next
    case 3
    then show ?thesis unfolding cl_eq T using near_f near_f1 by simp
  qed
qed

section \<open>Whole calls\<close>

text \<open>What a call of \<^verbatim>\<open>WatermarkEngine.process\<close> that reaches its loop leaves in the
  canvas, and what \<^verbatim>\<open>WatermarkProcessor.process\<close> returns.\<close>

lemma engine_process_result:
  assumes "ready e" "engine_alphaMap e fs cv = Some am"
      and "0 \<le> engine_roiX fs cv" "0 \<le> engine_roiY fs cv"
  shows "engine_process e cv fs t =
         Inr (cv\<lparr>cv_bitmap := \<lambda>x y c.
                if engine_in_roi fs cv x y \<and> c < 3
                   \<and> engine_entry fs cv x y < length (am_data am)
                   \<and> \<not> engine_alpha (am_data am ! engine_entry fs cv x y) t < ALPHA_THRESHOLD
                then engine_restored (engine_alpha (am_data am ! engine_entry fs cv x y) t)
                       (logoValue e) (cv_bitmap cv x y c)
                else cv_bitmap cv x y c\<rparr>)"
proof -
  have roi: "engine_in_roi fs cv x y =
      (nat (engine_roiX fs cv) \<le> x \<and> x < nat (engine_roiX fs cv) + engine_logo fs cv
       \<and> nat (engine_roiY fs cv) \<le> y \<and> y < nat (engine_roiY fs cv) + engine_logo fs cv)" for x y
    unfolding engine_in_roi_def Let_def using assms(3,4) by linarith
  have entry: "engine_entry fs cv x y =
      (y - nat (engine_roiY fs cv)) * engine_logo fs cv + (x - nat (engine_roiX fs cv))" for x y
  proof -
    have "nat (int y - engine_roiY fs cv) = y - nat (engine_roiY fs cv)"
      using assms(4) by linarith
    moreover have "nat (int x - engine_roiX fs cv) = x - nat (engine_roiX fs cv)"
      using assms(3) by linarith
    ultimately show ?thesis by (simp add: engine_entry_def)
  qed
  show ?thesis
    unfolding engine_process_bitmap [OF assms] roi entry Let_def by (simp only: conj_assoc)
qed

lemma engine_process_cases:
  assumes "engine_process e cv fs t = Inr cv'"
  shows "ready e \<and> ((engine_roiX fs cv < 0 \<or> engine_roiY fs cv < 0) \<and> cv' = cv
          \<or> (\<exists>am. engine_alphaMap e fs cv = Some am \<and> 0 \<le> engine_roiX fs cv \<and> 0 \<le> engine_roiY fs cv))"
  using assms
  by (auto simp: engine_process_def engine_roiX_def engine_roiY_def engine_alphaMap_def Let_def
        split: if_splits option.splits)

lemma engine_process_undersized:
  assumes "ready e" "engine_roiX fs cv < 0 \<or> engine_roiY fs cv < 0"
  shows "engine_process e cv fs t = Inr cv"
  using assms by (auto simp: engine_process_def engine_roiX_def engine_roiY_def Let_def)

lemma processor_process_result:
  "processor_process p img mode lv =
     Inr (case processor_alphaMap p img mode of
            None \<Rightarrow> img
          | Some am \<Rightarrow>
              img\<lparr>id_data :=
                    processor_loop (processor_config (id_width img) (id_height img) mode)
                      (id_width img) (id_height img) am lv
                      (nat (pc_size (processor_config (id_width img) (id_height img) mode)))
                      (id_data img)\<rparr>)"
  by (simp add: processor_process_def processor_alphaMap_def Let_def split: option.splits)


section \<open>The example inputs evaluated\<close>

lemma loaded_engine_simps [simp]:
  "ready (loaded_engine a)" "logoValue (loaded_engine a) = 255"
  "alphaMaps_small (loaded_engine a) = Some (flat_map 48 a)"
  "alphaMaps_large (loaded_engine a) = Some (flat_map 96 a)"
  by (simp_all add: loaded_engine_def engine_new_def)

lemma loaded_engine_init:
  "engine_init engine_new (Some (flat_map 48 a)) (Some (flat_map 96 a)) = Some (loaded_engine a)"
  by (simp add: engine_init_def loaded_engine_def)

lemma loaded_processor_simps [simp]:
  "isReady (loaded_processor a)"
  "alphaMap48 (loaded_processor a) = Some (flat_map 48 a)"
  "alphaMap96 (loaded_processor a) = Some (flat_map 96 a)"
  by (simp_all add: loaded_processor_def processor_init_def processor_new_def)

lemma flat_simps [simp]:
  "cv_width (flat_canvas w h v) = w" "cv_height (flat_canvas w h v) = h"
  "cv_bitmap (flat_canvas w h v) x y c = v"
  "id_width (flat_image w h v) = w" "id_height (flat_image w h v) = h"
  "id_data (flat_image w h v) = replicate (4 * w * h) v"
  "am_data (flat_map n a) = replicate (n * n) a"
  by (simp_all add: flat_canvas_def flat_image_def flat_map_def)

lemmas config_defs =
  engine_config_def getWatermarkConfig_def getWatermarkConfigLarge_def
  getWatermarkConfigSmall_def WATERMARK_SIZE_LARGE_def WATERMARK_SIZE_SMALL_def

lemmas roi_defs = engine_roiX_def engine_roiY_def engine_logo_def engine_alphaMap_def

section \<open>Variant selection\<close>

text \<open>
  C3. With no override (\<open>forceSize\<close> null in the engine, \<open>forceMode\<close> \<open>auto\<close> in the
  processor) the large placement (logo 96, margins 64) is chosen exactly when the width
  and the height are both strictly greater than 1024, and the small placement (logo 48,
  margins 32) in every other case; an image of 1024 by 1024 gets the small one.
\<close>

theorem auto_selects_by_size:
  "(engine_config None w h =
      \<lparr>margin_right = 64, margin_bottom = 64, logo_size = 96, cfg_size = 96\<rparr>)
     = (1024 < w \<and> 1024 < h)
   \<and> (engine_config None w h =
      \<lparr>margin_right = 32, margin_bottom = 32, logo_size = 48, cfg_size = 48\<rparr>)
     = (\<not> (1024 < w \<and> 1024 < h))
   \<and> engine_config None w h = getWatermarkConfig w h
   \<and> (pc_size (processor_config w h ''auto'') = 96 \<and> pc_margin (processor_config w h ''auto'') = 64)
     = (1024 < w \<and> 1024 < h)
   \<and> (pc_size (processor_config w h ''auto'') = 48 \<and> pc_margin (processor_config w h ''auto'') = 32)
     = (\<not> (1024 < w \<and> 1024 < h))
   \<and> logo_size (engine_config None 1024 1024) = 48
   \<and> pc_size (processor_config 1024 1024 ''auto'') = 48"
  by (simp add: config_defs processor_config_def Let_def)

theorem auto_selects_by_size_witness:
  "engine_config None 2000 2000 =
      \<lparr>margin_right = 64, margin_bottom = 64, logo_size = 96, cfg_size = 96\<rparr>
   \<and> engine_config None 800 1200 =
      \<lparr>margin_right = 32, margin_bottom = 32, logo_size = 48, cfg_size = 48\<rparr>
   \<and> pc_size (processor_config 2000 2000 ''auto'') = 96
   \<and> pc_size (processor_config 800 1200 ''auto'') = 48"
  using auto_selects_by_size [of 2000 2000] auto_selects_by_size [of 800 1200] by simp

text \<open>
  C9. An explicit override fixes the placement whatever the dimensions are: the engine's
  \<open>small\<close> and \<open>large\<close>, the processor's \<open>48\<close> and \<open>96\<close>.
\<close>

theorem override_wins:
  "engine_config (Some WATERMARK_SIZE_SMALL) w h =
      \<lparr>margin_right = 32, margin_bottom = 32, logo_size = 48, cfg_size = 48\<rparr>
   \<and> engine_config (Some WATERMARK_SIZE_LARGE) w h =
      \<lparr>margin_right = 64, margin_bottom = 64, logo_size = 96, cfg_size = 96\<rparr>
   \<and> pc_size (processor_config w h ''48'') = 48 \<and> pc_margin (processor_config w h ''48'') = 32
   \<and> pc_size (processor_config w h ''96'') = 96 \<and> pc_margin (processor_config w h ''96'') = 64"
  by (simp add: config_defs processor_config_def Let_def)

section \<open>Undersized images and calls before initialisation\<close>

text \<open>
  C10. In the engine, a region of interest whose origin is negative in either axis makes
  \<^verbatim>\<open>process\<close> return at once with the canvas as it was: the part of the region
  that lies inside the canvas is not restored.
\<close>

theorem engine_negative_origin_untouched:
  "ready e \<Longrightarrow> engine_roiX forceSize cv < 0 \<or> engine_roiY forceSize cv < 0 \<Longrightarrow>
   engine_process e cv forceSize intensity = Inr cv"
  by (rule engine_process_undersized)

theorem engine_negative_origin_untouched_witness:
  "ready (loaded_engine (1 / 2))
   \<and> engine_roiX None (flat_canvas 100 60 7) = 20
   \<and> engine_roiY None (flat_canvas 100 60 7) = - 20
   \<and> engine_process (loaded_engine (1 / 2)) (flat_canvas 100 60 7) None 1
       = Inr (flat_canvas 100 60 7)"
proof -
  have x: "engine_roiX None (flat_canvas 100 60 7) = 20"
    and y: "engine_roiY None (flat_canvas 100 60 7) = - 20"
    by (simp_all add: roi_defs config_defs)
  have "engine_roiX None (flat_canvas 100 60 7) < 0 \<or> engine_roiY None (flat_canvas 100 60 7) < 0"
    using y by simp
  from engine_negative_origin_untouched [OF _ this, of "loaded_engine (1 / 2)" 1] x y
  show ?thesis by simp
qed

text \<open>
  C5, as stated, asks every call made before initialisation to fail with an error.
  A processor that has loaded nothing returns the image it was given, as a normal
  result.
\<close>

theorem processor_not_ready_counterexample:
  "\<not> isReady processor_new
   \<and> processor_process processor_new (flat_image 2 2 9) ''auto'' 255 = Inr (flat_image 2 2 9)
   \<and> processor_process processor_new (flat_image 2 2 9) ''auto'' 255 \<noteq> Inl EngineNotReady"
  by (simp add: processor_process_def processor_new_def Let_def)

text \<open>
  C5, amended. An engine that is not ready throws its \<^verbatim>\<open>not initialized\<close> error
  and nothing else happens. A processor whose selected alpha map is not loaded raises
  nothing and returns the image unchanged.
\<close>

theorem not_ready_behaviour:
  "(\<not> ready e \<longrightarrow> engine_process e cv forceSize intensity = Inl EngineNotReady)
   \<and> (processor_alphaMap p img forceMode = None \<longrightarrow>
        processor_process p img forceMode logoV = Inr img)"
  by (simp add: engine_process_def processor_process_result)

theorem not_ready_behaviour_witness:
  "\<not> ready engine_new
   \<and> engine_process engine_new (flat_canvas 100 100 7) None 1 = Inl EngineNotReady
   \<and> processor_alphaMap processor_new (flat_image 2 2 9) ''auto'' = None
   \<and> processor_process processor_new (flat_image 2 2 9) ''auto'' 255 = Inr (flat_image 2 2 9)"
proof -
  have a: "\<not> ready engine_new" by (simp add: engine_new_def)
  have b: "processor_alphaMap processor_new (flat_image 2 2 9) ''auto'' = None"
    by (simp add: processor_alphaMap_def processor_new_def)
  from not_ready_behaviour [of engine_new "flat_canvas 100 100 7" None 1 processor_new
      "flat_image 2 2 9" "''auto''" 255] a b
  show ?thesis by simp
qed

section \<open>Frames of the two calls\<close>

lemma processor_process_data:
  assumes "processor_alphaMap p img mode = Some am" "j < length (id_data img)"
      and "processor_process p img mode lv = Inr img'"
  shows "id_data img' ! j =
     (let w = id_width img; h = id_height img; cfg = processor_config w h mode;
          ms = nat (pc_size cfg); alpha = processor_entry cfg w am ms j
      in if processor_touched cfg w h ms j \<and> \<not> js_lt alpha (Some ALPHA_THRESHOLD)
         then processor_restored alpha lv (id_data img ! j) else id_data img ! j)"
  using assms unfolding processor_process_result Let_def
  by (simp only: sum.inject option.case) (auto simp add: processor_loop_nth)

lemma processor_process_shape:
  "\<exists>img'. processor_process p img mode lv = Inr img' \<and> id_width img' = id_width img
     \<and> id_height img' = id_height img \<and> length (id_data img') = length (id_data img)"
  unfolding processor_process_result by (simp split: option.splits)

lemma processor_process_untouched:
  assumes "processor_process p img mode lv = Inr img'" "j < length (id_data img)"
      and "\<not> processor_touched (processor_config (id_width img) (id_height img) mode)
              (id_width img) (id_height img)
              (nat (pc_size (processor_config (id_width img) (id_height img) mode))) j"
  shows "id_data img' ! j = id_data img ! j"
proof (cases "processor_alphaMap p img mode")
  case None
  with assms(1) show ?thesis by (simp add: processor_process_result)
next
  case (Some am)
  from processor_process_data [OF Some assms(2) assms(1)] assms(3)
  show ?thesis by (simp add: Let_def)
qed

lemma processor_touched_inside:
  assumes "processor_touched cfg w h ms j"
  shows "j < 4 * w * h"
proof -
  from assms have w: "0 < w" and y: "(j div 4) div w < h"
    by (simp_all add: processor_touched_def processor_in_roi_def Let_def)
  have "j div 4 < w * h"
    using y w by (simp add: div_less_iff_less_mult mult.commute less_mult_imp_div_less)
  then show ?thesis by linarith
qed

lemma engine_process_frame:
  assumes "engine_process e cv fs t = Inr cv'"
  shows "cv_width cv' = cv_width cv" "cv_height cv' = cv_height cv"
    and "\<not> (engine_in_roi fs cv x y \<and> c < 3) \<Longrightarrow> cv_bitmap cv' x y c = cv_bitmap cv x y c"
proof -
  from engine_process_cases [OF assms]
  consider "cv' = cv"
    | am where "ready e" "engine_alphaMap e fs cv = Some am" "0 \<le> engine_roiX fs cv"
        "0 \<le> engine_roiY fs cv"
    by blast
  then have "cv_width cv' = cv_width cv \<and> cv_height cv' = cv_height cv
      \<and> (\<not> (engine_in_roi fs cv x y \<and> c < 3) \<longrightarrow> cv_bitmap cv' x y c = cv_bitmap cv x y c)"
  proof cases
    case 1
    then show ?thesis by simp
  next
    case 2
    from assms engine_process_result [OF 2, of t] show ?thesis by auto
  qed
  then show "cv_width cv' = cv_width cv" "cv_height cv' = cv_height cv"
    and "\<not> (engine_in_roi fs cv x y \<and> c < 3) \<Longrightarrow> cv_bitmap cv' x y c = cv_bitmap cv x y c"
    by simp_all
qed



section \<open>Frame, threshold and undersized images\<close>

text \<open>
  C8. A call changes nothing but colour channels of pixels inside the region of
  interest. For the engine: whenever \<^verbatim>\<open>process\<close> returns, the canvas keeps its
  width and height, and every channel of a pixel outside the region, and the alpha
  channel of every pixel, holds what it held. For the processor: the call returns an
  image of the same width, height and data length, and every data index that is not a
  colour channel of a region pixel inside the image holds what it held.
\<close>

theorem restore_frame:
  "(engine_process e cv forceSize intensity = Inr cv' \<longrightarrow>
      cv_width cv' = cv_width cv \<and> cv_height cv' = cv_height cv
      \<and> (\<forall>x y c. \<not> (engine_in_roi forceSize cv x y \<and> c < 3) \<longrightarrow>
            cv_bitmap cv' x y c = cv_bitmap cv x y c))
   \<and> (let w = id_width img; h = id_height img; cfg = processor_config w h forceMode;
           ms = nat (pc_size cfg)
       in \<exists>img'. processor_process p img forceMode logoV = Inr img'
            \<and> id_width img' = w \<and> id_height img' = h
            \<and> length (id_data img') = length (id_data img)
            \<and> (\<forall>j < length (id_data img). \<not> processor_touched cfg w h ms j \<longrightarrow>
                  id_data img' ! j = id_data img ! j))"
proof (intro conjI impI)
  assume r: "engine_process e cv forceSize intensity = Inr cv'"
  show "cv_width cv' = cv_width cv" "cv_height cv' = cv_height cv"
    by (rule engine_process_frame [OF r])+
  show "\<forall>x y c. \<not> (engine_in_roi forceSize cv x y \<and> c < 3) \<longrightarrow>
          cv_bitmap cv' x y c = cv_bitmap cv x y c"
    using engine_process_frame(3) [OF r] by blast
next
  obtain img' where r: "processor_process p img forceMode logoV = Inr img'"
    and shape: "id_width img' = id_width img" "id_height img' = id_height img"
      "length (id_data img') = length (id_data img)"
    using processor_process_shape [of p img forceMode logoV] by blast
  show "let w = id_width img; h = id_height img; cfg = processor_config w h forceMode;
            ms = nat (pc_size cfg)
        in \<exists>img'. processor_process p img forceMode logoV = Inr img'
             \<and> id_width img' = w \<and> id_height img' = h
             \<and> length (id_data img') = length (id_data img)
             \<and> (\<forall>j < length (id_data img). \<not> processor_touched cfg w h ms j \<longrightarrow>
                   id_data img' ! j = id_data img ! j)"
    unfolding Let_def using r shape processor_process_untouched [OF r] by blast
qed


lemma example_canvas_roi:
  "engine_roiX None (flat_canvas 100 100 v) = 20" "engine_roiY None (flat_canvas 100 100 v) = 20"
  "engine_logo None (flat_canvas 100 100 v) = 48"
  "engine_alphaMap (loaded_engine a) None (flat_canvas 100 100 v) = Some (flat_map 48 a)"
  by (simp_all add: roi_defs config_defs)

lemma example_canvas_returns:
  "\<exists>cv'. engine_process (loaded_engine a) (flat_canvas 100 100 v) None t = Inr cv'"
  using engine_process_result [of "loaded_engine a" None "flat_canvas 100 100 v" "flat_map 48 a" t]
  by (simp add: example_canvas_roi)

lemma example_image_config:
  "processor_config 100 100 ''auto'' = \<lparr>pc_size = 48, pc_margin = 32, pc_x = 20, pc_y = 20\<rparr>"
  "processor_alphaMap (loaded_processor a) (flat_image 100 100 v) ''auto'' = Some (flat_map 48 a)"
  by (simp_all add: processor_config_def processor_alphaMap_def Let_def)

theorem restore_frame_witness:
  "(\<exists>cv'. engine_process (loaded_engine (1 / 2)) (flat_canvas 100 100 200) None 1 = Inr cv'
       \<and> cv_width cv' = 100 \<and> cv_height cv' = 100
       \<and> cv_bitmap cv' 0 0 0 = 200 \<and> cv_bitmap cv' 30 30 3 = 200)
   \<and> (\<exists>img'. processor_process (loaded_processor (1 / 2)) (flat_image 100 100 200) ''auto'' 255
                = Inr img'
       \<and> length (id_data img') = 40000
       \<and> id_data img' ! 0 = 200 \<and> id_data img' ! 12123 = 200)"
proof -
  obtain cv' where r: "engine_process (loaded_engine (1 / 2)) (flat_canvas 100 100 200) None 1 = Inr cv'"
    using example_canvas_returns by blast
  note f = restore_frame [of "loaded_engine (1 / 2)" "flat_canvas 100 100 200" None 1 cv'
      "flat_image 100 100 200" "''auto''" "loaded_processor (1 / 2)" 255]
  have out: "\<not> (engine_in_roi None (flat_canvas 100 100 200) 0 0 \<and> (0::nat) < 3)"
    by (simp add: engine_in_roi_def example_canvas_roi)
  have alpha: "\<not> (engine_in_roi None (flat_canvas 100 100 200) 30 30 \<and> (3::nat) < 3)"
    by simp
  have e: "cv_width cv' = 100 \<and> cv_height cv' = 100
       \<and> cv_bitmap cv' 0 0 0 = 200 \<and> cv_bitmap cv' 30 30 3 = 200"
    using f r out alpha by simp
  have t0: "\<not> processor_touched \<lparr>pc_size = 48, pc_margin = 32, pc_x = 20, pc_y = 20\<rparr> 100 100 48 0"
    by (simp add: processor_touched_def processor_in_roi_def)
  have t1: "\<not> processor_touched \<lparr>pc_size = 48, pc_margin = 32, pc_x = 20, pc_y = 20\<rparr> 100 100 48 12123"
    by (simp add: processor_touched_def)
  from f obtain img' where
    p: "processor_process (loaded_processor (1 / 2)) (flat_image 100 100 200) ''auto'' 255 = Inr img'"
      "length (id_data img') = 40000"
      "\<forall>j<40000. \<not> processor_touched \<lparr>pc_size = 48, pc_margin = 32, pc_x = 20, pc_y = 20\<rparr> 100 100 48 j
          \<longrightarrow> id_data img' ! j = 200"
    by (auto simp add: Let_def example_image_config)
  from p(3) t0 t1 have "id_data img' ! 0 = 200 \<and> id_data img' ! 12123 = 200" by simp
  with p(1,2) e r show ?thesis by blast
qed





text \<open>
  C4. An image too small for the chosen placement is restored without an error and
  without a write outside its pixel array. A ready engine returns with the canvas as it
  was. The processor, on every image, returns an image of the same width, height and
  data length, and a data index whose byte changed is a colour channel of a region
  pixel that lies inside the image, below \<open>4 * width * height\<close>: the rest of the
  region is skipped.
\<close>

theorem undersized_is_safe:
  "(let config = engine_config forceSize (cv_width cv) (cv_height cv)
    in ready e
       \<and> (int (cv_width cv) < logo_size config + margin_right config
          \<or> int (cv_height cv) < logo_size config + margin_bottom config)
       \<longrightarrow> engine_process e cv forceSize intensity = Inr cv)
   \<and> (let w = id_width img; h = id_height img; cfg = processor_config w h forceMode;
           ms = nat (pc_size cfg)
       in \<exists>img'. processor_process p img forceMode logoV = Inr img'
            \<and> id_width img' = w \<and> id_height img' = h
            \<and> length (id_data img') = length (id_data img)
            \<and> (\<forall>j < length (id_data img). id_data img' ! j \<noteq> id_data img ! j \<longrightarrow>
                  processor_touched cfg w h ms j \<and> j < 4 * w * h))"
proof (intro conjI)
  show "let config = engine_config forceSize (cv_width cv) (cv_height cv)
    in ready e
       \<and> (int (cv_width cv) < logo_size config + margin_right config
          \<or> int (cv_height cv) < logo_size config + margin_bottom config)
       \<longrightarrow> engine_process e cv forceSize intensity = Inr cv"
    unfolding Let_def
  proof (intro impI, elim conjE)
    assume rd: "ready e"
      and small: "int (cv_width cv) < logo_size (engine_config forceSize (cv_width cv) (cv_height cv))
                    + margin_right (engine_config forceSize (cv_width cv) (cv_height cv))
                \<or> int (cv_height cv) < logo_size (engine_config forceSize (cv_width cv) (cv_height cv))
                    + margin_bottom (engine_config forceSize (cv_width cv) (cv_height cv))"
    from small have "engine_roiX forceSize cv < 0 \<or> engine_roiY forceSize cv < 0"
      unfolding engine_roiX_def engine_roiY_def Let_def by linarith
    with rd show "engine_process e cv forceSize intensity = Inr cv"
      by (rule engine_process_undersized)
  qed
next
  obtain img' where r: "processor_process p img forceMode logoV = Inr img'"
    and shape: "id_width img' = id_width img" "id_height img' = id_height img"
      "length (id_data img') = length (id_data img)"
    using processor_process_shape [of p img forceMode logoV] by blast
  show "let w = id_width img; h = id_height img; cfg = processor_config w h forceMode;
            ms = nat (pc_size cfg)
        in \<exists>img'. processor_process p img forceMode logoV = Inr img'
             \<and> id_width img' = w \<and> id_height img' = h
             \<and> length (id_data img') = length (id_data img)
             \<and> (\<forall>j < length (id_data img). id_data img' ! j \<noteq> id_data img ! j \<longrightarrow>
                   processor_touched cfg w h ms j \<and> j < 4 * w * h)"
    unfolding Let_def
    using r shape processor_process_untouched [OF r] processor_touched_inside by blast
qed

theorem undersized_is_safe_witness:
  "ready (loaded_engine (1 / 2))
   \<and> logo_size (engine_config None 60 40) + margin_right (engine_config None 60 40) = 80
   \<and> engine_process (loaded_engine (1 / 2)) (flat_canvas 60 40 200) None 1
       = Inr (flat_canvas 60 40 200)
   \<and> processor_config 60 40 ''auto'' = \<lparr>pc_size = 48, pc_margin = 32, pc_x = - 20, pc_y = - 40\<rparr>
   \<and> (\<exists>img'. processor_process (loaded_processor (1 / 2)) (flat_image 60 40 200) ''auto'' 255
                = Inr img'
        \<and> id_width img' = 60 \<and> id_height img' = 40 \<and> length (id_data img') = 9600)"
proof -
  note f = undersized_is_safe [of None "flat_canvas 60 40 200" "loaded_engine (1 / 2)" 1
      "flat_image 60 40 200" "''auto''" "loaded_processor (1 / 2)" 255]
  have c: "logo_size (engine_config None 60 40) + margin_right (engine_config None 60 40) = 80"
    by (simp add: config_defs)
  have pc: "processor_config 60 40 ''auto'' = \<lparr>pc_size = 48, pc_margin = 32, pc_x = - 20, pc_y = - 40\<rparr>"
    by (simp add: processor_config_def Let_def)
  have e: "engine_process (loaded_engine (1 / 2)) (flat_canvas 60 40 200) None 1
       = Inr (flat_canvas 60 40 200)"
    using f c by (simp add: Let_def)
  from f obtain img' where
    "processor_process (loaded_processor (1 / 2)) (flat_image 60 40 200) ''auto'' 255 = Inr img'"
    "id_width img' = 60" "id_height img' = 40" "length (id_data img') = 9600"
    by (auto simp add: Let_def)
  with e c pc show ?thesis by auto
qed

section \<open>Rounding and clamping\<close>

lemma clamp255_range: "0 \<le> clamp255 z" "clamp255 z \<le> 255"
  by (simp_all add: clamp255_def)

lemma clamp255_idem: "clamp255 (clamp255 z) = clamp255 z"
  by (simp add: clamp255_def)

lemma clamp255_near: "0 \<le> v \<Longrightarrow> v \<le> 255 \<Longrightarrow> \<bar>clamp255 z - v\<bar> \<le> \<bar>z - v\<bar>"
  by (simp add: clamp255_def min_def max_def)

lemma engine_alpha_le: "engine_alpha a t \<le> 99 / 100"
  by (simp add: engine_alpha_def Let_def MAX_ALPHA_def)

lemma engine_value_Some:
  assumes "alpha \<le> 99 / 100"
  shows "engine_value (alpha * lv) (1 - alpha) (Some v) = Some (clamp255 ((v - alpha * lv) / (1 - alpha)))"
proof -
  have "1 - alpha \<noteq> 0" using assms by simp
  then show ?thesis by (simp add: engine_value_def clamp255_def)
qed

lemma engine_restored_nearest:
  assumes "alpha \<le> 99 / 100"
  shows "nearest_byte (engine_restored alpha 255 v) (spec_restored alpha (of_nat (unat v)))"
  unfolding engine_restored_def engine_value_Some [OF assms] spec_restored_def
  using ToUint8Clamp_nearest [of "clamp255 ((of_nat (unat v) - alpha * 255) / (1 - alpha))"]
  by (simp only: clamp255_idem)

lemma ToUint8Clamp_of_int:
  assumes "0 \<le> n" "n \<le> 255"
  shows "ToUint8Clamp (Some (of_int n)) = word_of_int n"
proof -
  have "min (max (rat_of_int n) 0) 255 = of_int n" using assms by simp
  then show ?thesis by (simp add: ToUint8Clamp_def Let_def)
qed

lemma round_clamp_nearest:
  "\<bar>rat_of_int (max 0 (min 255 \<lfloor>x + 1 / 2\<rfloor>)) - clamp255 x\<bar> \<le> 1 / 2"
proof -
  have f: "of_int \<lfloor>x + 1 / 2\<rfloor> \<le> x + 1 / 2" "x + 1 / 2 < of_int \<lfloor>x + 1 / 2\<rfloor> + 1"
    by linarith+
  consider "\<lfloor>x + 1 / 2\<rfloor> < 0" | "255 < \<lfloor>x + 1 / 2\<rfloor>" | "0 \<le> \<lfloor>x + 1 / 2\<rfloor>" "\<lfloor>x + 1 / 2\<rfloor> \<le> 255"
    by linarith
  then show ?thesis
  proof cases
    case 1
    then have "x + 1 / 2 < 0" by linarith
    with 1 show ?thesis by (simp add: clamp255_def min_def max_def)
  next
    case 2
    then have "256 \<le> x + 1 / 2" by linarith
    with 2 show ?thesis by (simp add: clamp255_def min_def max_def)
  next
    case 3
    define n where "n = \<lfloor>x + 1 / 2\<rfloor>"
    have m: "max 0 (min 255 \<lfloor>x + 1 / 2\<rfloor>) = n" using 3 by (simp add: n_def)
    have n: "0 \<le> n" "n \<le> 255" using 3 by (simp_all add: n_def)
    have fn: "of_int n \<le> x + 1 / 2" "x + 1 / 2 < of_int n + 1"
      using f by (simp_all add: n_def)
    consider "x < 0" | "255 < x" | "0 \<le> x" "x \<le> 255" by linarith
    then have "\<bar>rat_of_int n - clamp255 x\<bar> \<le> 1 / 2"
    proof cases
      case 1
      with fn have "rat_of_int n < 1" by linarith
      then have "n < 1" by (simp only: of_int_less_1_iff)
      with n have "n = 0" by simp
      with 1 show ?thesis by (simp add: clamp255_def)
    next
      case 2
      with fn have "rat_of_int 254 < of_int n" by simp
      then have "254 < n" by (simp only: of_int_less_iff)
      with n have "n = 255" by simp
      with 2 show ?thesis by (simp add: clamp255_def)
    next
      case 3
      then have "clamp255 x = x" by (simp add: clamp255_def)
      moreover have "\<bar>rat_of_int n - x\<bar> \<le> 1 / 2" using fn by linarith
      ultimately show ?thesis by simp
    qed
    then show ?thesis unfolding m .
  qed
qed

lemma processor_value_Some:
  assumes "sa \<le> 99 / 100"
  shows "processor_value (Some sa) (js_sub (Some 1) (Some sa)) lv (Some v) =
         Some (of_int (max 0 (min 255 \<lfloor>(v - sa * lv) / (1 - sa) + 1 / 2\<rfloor>)))"
proof -
  have "1 - sa \<noteq> 0" using assms by simp
  then show ?thesis by (simp add: processor_value_def Let_def)
qed

lemma processor_restored_nearest:
  "nearest_byte (processor_restored (Some a) 255 v)
     (spec_restored (min a MAX_ALPHA) (of_nat (unat v)))"
proof -
  define sa where "sa = min a MAX_ALPHA"
  define n where "n = max 0 (min 255 \<lfloor>(of_nat (unat v) - sa * 255) / (1 - sa) + 1 / 2\<rfloor>)"
  have sa: "sa \<le> 99 / 100" by (simp add: sa_def MAX_ALPHA_def)
  have n: "0 \<le> n" "n \<le> 255" by (simp_all add: n_def)
  have "processor_restored (Some a) 255 v = word_of_int n"
    unfolding processor_restored_def Let_def js_min.simps sa_def [symmetric]
      processor_value_Some [OF sa] n_def [symmetric]
    by (rule ToUint8Clamp_of_int [OF n])
  moreover have "rat_of_nat (unat (word_of_int n :: byte)) = of_int n"
    using n by (simp add: unat_byte_of_int)
  ultimately show ?thesis
    unfolding nearest_byte_def spec_restored_def sa_def [symmetric]
    using round_clamp_nearest [of "(of_nat (unat v) - sa * 255) / (1 - sa)"]
    by (simp only: n_def)
qed


lemma byte_range: "0 \<le> rat_of_nat (unat (b :: byte))" "rat_of_nat (unat (b :: byte)) \<le> 255"
proof -
  have "unat b < 2 ^ LENGTH(8)" by (rule unsigned_less)
  then have "unat b \<le> 255" by simp
  then have "rat_of_nat (unat b) \<le> rat_of_nat 255" by (simp only: of_nat_le_iff)
  then show "rat_of_nat (unat b) \<le> 255" by simp
  show "0 \<le> rat_of_nat (unat b)" by (rule of_nat_0_le_iff)
qed

lemma byte_distance:
  "rat_of_int \<bar>int (unat (r :: byte)) - int (unat (b :: byte))\<bar> = \<bar>rat_of_nat (unat r) - rat_of_nat (unat b)\<bar>"
  by simp

lemma within_one_iff: "within_one r b = (\<bar>rat_of_nat (unat r) - rat_of_nat (unat b)\<bar> < 2)"
proof -
  have "(\<bar>int (unat r) - int (unat b)\<bar> \<le> 1) = (\<bar>int (unat r) - int (unat b)\<bar> < 2)" by linarith
  also have "\<dots> = (rat_of_int \<bar>int (unat r) - int (unat b)\<bar> < rat_of_int 2)"
    by (simp only: of_int_less_iff)
  also have "\<dots> = (\<bar>rat_of_nat (unat r) - rat_of_nat (unat b)\<bar> < 2)"
    by (simp only: byte_distance) simp
  finally show ?thesis by (simp only: within_one_def)
qed

lemma roundtrip_restored:
  assumes a: "0 \<le> a" "a < 99 / 100"
      and w: "nearest_byte w (spec_composite (of_nat (unat orig)) a)"
      and r: "nearest_byte r (spec_restored a (of_nat (unat w)))"
  shows "(1 - a) * (2 * \<bar>rat_of_nat (unat r) - rat_of_nat (unat orig)\<bar> - 1) \<le> 1"
    and "a < 2 / 3 \<Longrightarrow> within_one r orig"
proof -
  define Og where "Og = rat_of_nat (unat orig)"
  define W where "W = rat_of_nat (unat w)"
  define R where "R = rat_of_nat (unat r)"
  define e where "e = W - spec_composite Og a"
  define x where "x = (W - a * 255) / (1 - a)"
  have pos: "0 < 1 - a" using a by simp
  have e: "\<bar>e\<bar> \<le> 1 / 2"
    using w unfolding nearest_byte_def e_def W_def Og_def .
  have Or: "0 \<le> Og" "Og \<le> 255" unfolding Og_def by (rule byte_range)+
  have "x - Og = e / (1 - a)"
    unfolding x_def e_def spec_composite_def using pos by (simp add: field_simps)
  then have "\<bar>x - Og\<bar> = \<bar>e\<bar> / (1 - a)" using pos by simp
  then have xO: "\<bar>x - Og\<bar> * (1 - a) = \<bar>e\<bar>" using pos by simp
  have c: "\<bar>clamp255 x - Og\<bar> \<le> \<bar>x - Og\<bar>" by (rule clamp255_near [OF Or])
  have rc: "\<bar>R - clamp255 x\<bar> \<le> 1 / 2"
    using r unfolding nearest_byte_def spec_restored_def R_def W_def x_def .
  have "\<bar>R - Og\<bar> \<le> \<bar>R - clamp255 x\<bar> + \<bar>clamp255 x - Og\<bar>"
    using abs_triangle_ineq [of "R - clamp255 x" "clamp255 x - Og"] by simp
  also have "\<dots> \<le> 1 / 2 + \<bar>x - Og\<bar>" by (intro add_mono rc c)
  finally have RO: "2 * \<bar>R - Og\<bar> - 1 \<le> 2 * \<bar>x - Og\<bar>" by simp
  have "(1 - a) * (2 * \<bar>R - Og\<bar> - 1) \<le> (1 - a) * (2 * \<bar>x - Og\<bar>)"
    using RO pos by (intro mult_left_mono) simp_all
  also have "\<dots> = 2 * \<bar>e\<bar>" using xO by (simp add: mult.commute)
  also have "\<dots> \<le> 1" using e by simp
  finally show b: "(1 - a) * (2 * \<bar>rat_of_nat (unat r) - rat_of_nat (unat orig)\<bar> - 1) \<le> 1"
    unfolding R_def Og_def .
  assume small: "a < 2 / 3"
  show "within_one r orig"
  proof (rule ccontr)
    assume "\<not> within_one r orig"
    then have "2 \<le> \<bar>R - Og\<bar>" unfolding within_one_iff R_def Og_def by simp
    then have "3 \<le> 2 * \<bar>R - Og\<bar> - 1" by simp
    then have "(1 - a) * 3 \<le> (1 - a) * (2 * \<bar>R - Og\<bar> - 1)"
      using pos by (intro mult_left_mono) simp_all
    also have "\<dots> \<le> 1" using b unfolding R_def Og_def .
    finally show False using small by simp
  qed
qed

lemma roundtrip_skipped:
  assumes a: "0 \<le> a" "a < ALPHA_THRESHOLD"
      and w: "nearest_byte w (spec_composite (of_nat (unat orig)) a)"
  shows "within_one w orig"
    and "(1 - a) * (2 * \<bar>rat_of_nat (unat w) - rat_of_nat (unat orig)\<bar> - 1) \<le> 1"
proof -
  define Og where "Og = rat_of_nat (unat orig)"
  define W where "W = rat_of_nat (unat w)"
  have Or: "0 \<le> Og" "Og \<le> 255" unfolding Og_def by (rule byte_range)+
  have a2: "a < 2 / 1000" using a by (simp add: ALPHA_THRESHOLD_def)
  have "\<bar>W - (Og * (1 - a) + a * 255)\<bar> \<le> 1 / 2"
    using w unfolding nearest_byte_def spec_composite_def W_def Og_def .
  moreover have "Og * (1 - a) + a * 255 = Og + a * (255 - Og)" by (simp add: algebra_simps)
  moreover have "a * (255 - Og) \<le> a * 255" using a(1) Or by (intro mult_left_mono) simp_all
  moreover have "0 \<le> a * (255 - Og)" using a(1) Or by simp
  ultimately have "\<bar>W - Og\<bar> \<le> 1 / 2 + a * 255" by linarith
  with a2 have lt: "\<bar>W - Og\<bar> < 2" by simp
  then show one: "within_one w orig" unfolding within_one_iff W_def Og_def .
  have "rat_of_int \<bar>int (unat w) - int (unat orig)\<bar> \<le> rat_of_int 1"
    using one unfolding within_one_def by (simp only: of_int_le_iff)
  then have "\<bar>W - Og\<bar> \<le> 1" unfolding W_def Og_def by (simp only: byte_distance of_int_1)
  then have "2 * \<bar>W - Og\<bar> - 1 \<le> 1" by simp
  moreover have "0 \<le> 1 - a" "1 - a \<le> 1" using a a2 by simp_all
  ultimately have "(1 - a) * (2 * \<bar>W - Og\<bar> - 1) \<le> (1 - a) * 1"
    by (intro mult_left_mono)
  also have "\<dots> \<le> 1" using a by simp
  finally have "(1 - a) * (2 * \<bar>W - Og\<bar> - 1) \<le> 1" .
  then show "(1 - a) * (2 * \<bar>rat_of_nat (unat w) - rat_of_nat (unat orig)\<bar> - 1) \<le> 1"
    unfolding W_def Og_def by simp
qed


section \<open>The restored value\<close>

text \<open>
  C7. The alpha that enters the formula is at most 0.99 and the divisor at least 0.01,
  for every map entry and every intensity. In the engine the loop body applies the
  three channel updates with \<open>alpha = min (entry * intensity) 0.99\<close>; in the processor,
  for an entry that is present, with \<open>safeAlpha = min entry 0.99\<close>. With these the
  division is defined and the channel value is the clamped quotient.
\<close>

theorem alpha_is_clamped:
  "(let alpha = engine_alpha a intensity
    in alpha \<le> 99 / 100 \<and> 1 / 100 \<le> 1 - alpha
       \<and> engine_pixel intensity logoV i a data =
           (if alpha < ALPHA_THRESHOLD then data
            else engine_channel (alpha * logoV) (1 - alpha) (i * 4 + 2)
                   (engine_channel (alpha * logoV) (1 - alpha) (i * 4 + 1)
                      (engine_channel (alpha * logoV) (1 - alpha) (i * 4) data)))
       \<and> engine_value (alpha * logoV) (1 - alpha) (Some v) =
           Some (clamp255 ((v - alpha * logoV) / (1 - alpha))))
   \<and> (f32_get (am_data am) (row * mapSize + col) = Some b \<longrightarrow>
        (let safeAlpha = min b MAX_ALPHA
         in safeAlpha \<le> 99 / 100 \<and> 1 / 100 \<le> 1 - safeAlpha
            \<and> processor_pixel config width height am logoV mapSize row col data =
                (if pc_x config + int col < 0 \<or> int width \<le> pc_x config + int col
                    \<or> pc_y config + int row < 0 \<or> int height \<le> pc_y config + int row
                    \<or> b < ALPHA_THRESHOLD
                 then data
                 else fold (processor_channel (Some safeAlpha) (Some (1 - safeAlpha)) logoV
                              (nat (((pc_y config + int row) * int width
                                     + (pc_x config + int col)) * 4)))
                        [0..<3] data)
            \<and> processor_value (Some safeAlpha) (Some (1 - safeAlpha)) logoV (Some v) =
                Some (of_int (max 0 (min 255
                  \<lfloor>(v - safeAlpha * logoV) / (1 - safeAlpha) + 1 / 2\<rfloor>)))))"
proof (intro conjI impI)
  have le: "engine_alpha a intensity \<le> 99 / 100" by (rule engine_alpha_le)
  show "let alpha = engine_alpha a intensity
    in alpha \<le> 99 / 100 \<and> 1 / 100 \<le> 1 - alpha
       \<and> engine_pixel intensity logoV i a data =
           (if alpha < ALPHA_THRESHOLD then data
            else engine_channel (alpha * logoV) (1 - alpha) (i * 4 + 2)
                   (engine_channel (alpha * logoV) (1 - alpha) (i * 4 + 1)
                      (engine_channel (alpha * logoV) (1 - alpha) (i * 4) data)))
       \<and> engine_value (alpha * logoV) (1 - alpha) (Some v) =
           Some (clamp255 ((v - alpha * logoV) / (1 - alpha)))"
    unfolding Let_def using le engine_value_Some [OF le, of logoV v]
    by (simp add: engine_pixel_unfold)
next
  assume b: "f32_get (am_data am) (row * mapSize + col) = Some b"
  have le: "min b MAX_ALPHA \<le> 99 / 100" by (simp add: MAX_ALPHA_def)
  have pv: "processor_value (Some (min b MAX_ALPHA)) (Some (1 - min b MAX_ALPHA)) logoV (Some v) =
      Some (of_int (max 0 (min 255
        \<lfloor>(v - min b MAX_ALPHA * logoV) / (1 - min b MAX_ALPHA) + 1 / 2\<rfloor>)))"
    using processor_value_Some [OF le, of logoV v] by simp
  have pp: "processor_pixel config width height am logoV mapSize row col data =
      (if pc_x config + int col < 0 \<or> int width \<le> pc_x config + int col
          \<or> pc_y config + int row < 0 \<or> int height \<le> pc_y config + int row
          \<or> b < ALPHA_THRESHOLD
       then data
       else fold (processor_channel (Some (min b MAX_ALPHA)) (Some (1 - min b MAX_ALPHA)) logoV
                    (nat (((pc_y config + int row) * int width + (pc_x config + int col)) * 4)))
              [0..<3] data)"
    unfolding processor_pixel_def Let_def b by simp
  show "let safeAlpha = min b MAX_ALPHA
         in safeAlpha \<le> 99 / 100 \<and> 1 / 100 \<le> 1 - safeAlpha
            \<and> processor_pixel config width height am logoV mapSize row col data =
                (if pc_x config + int col < 0 \<or> int width \<le> pc_x config + int col
                    \<or> pc_y config + int row < 0 \<or> int height \<le> pc_y config + int row
                    \<or> b < ALPHA_THRESHOLD
                 then data
                 else fold (processor_channel (Some safeAlpha) (Some (1 - safeAlpha)) logoV
                              (nat (((pc_y config + int row) * int width
                                     + (pc_x config + int col)) * 4)))
                        [0..<3] data)
            \<and> processor_value (Some safeAlpha) (Some (1 - safeAlpha)) logoV (Some v) =
                Some (of_int (max 0 (min 255
                  \<lfloor>(v - safeAlpha * logoV) / (1 - safeAlpha) + 1 / 2\<rfloor>)))"
    unfolding Let_def using le pv pp by simp
qed

theorem alpha_is_clamped_witness:
  "engine_alpha 1 2 = 99 / 100
   \<and> (1 / 100 :: rat) \<le> 1 - engine_alpha 1 2
   \<and> engine_value (engine_alpha 1 2 * 255) (1 - engine_alpha 1 2) (Some 255) = Some 255
   \<and> f32_get (am_data (flat_map 48 1)) (0 * 48 + 0) = Some 1
   \<and> min 1 MAX_ALPHA = 99 / 100
   \<and> processor_value (Some (min 1 MAX_ALPHA)) (Some (1 - min 1 MAX_ALPHA)) 255 (Some 255) = Some 255"
proof -
  have g: "f32_get (am_data (flat_map 48 1)) (0 * 48 + 0) = Some 1"
    by (simp add: f32_get_def)
  have m: "min 1 MAX_ALPHA = 99 / 100" "engine_alpha 1 2 = 99 / 100"
    by (simp_all add: MAX_ALPHA_def engine_alpha_def)
  note f = alpha_is_clamped [of 1 2 255 0 "[]" 255 "flat_map 48 1" 0 48 0 1
      "processor_config 100 100 ''auto''" 100 100]
  from f g have
    "(1 / 100 :: rat) \<le> 1 - engine_alpha 1 2"
    "engine_value (engine_alpha 1 2 * 255) (1 - engine_alpha 1 2) (Some 255)
       = Some (clamp255 ((255 - engine_alpha 1 2 * 255) / (1 - engine_alpha 1 2)))"
    "processor_value (Some (min 1 MAX_ALPHA)) (Some (1 - min 1 MAX_ALPHA)) 255 (Some 255)
       = Some (of_int (max 0 (min 255
           \<lfloor>(255 - min 1 MAX_ALPHA * 255) / (1 - min 1 MAX_ALPHA) + 1 / 2\<rfloor>)))"
    by (simp_all add: Let_def)
  then show ?thesis using g by (simp add: clamp255_def MAX_ALPHA_def engine_alpha_def)
qed











section \<open>Round trip\<close>

text \<open>
  C1, as stated, promises the original within one unit wherever alpha is below 0.99. The
  watermarked image holds bytes, so the composite is rounded before it is restored, and
  the restoration divides that rounding error by \<open>1 - alpha\<close>. With alpha 7/8 (all the
  arithmetic is exact in binary) an original 100 composites to 235.625, stored as 236,
  and both implementations restore 103. With the map entry 223/255, which a background
  capture can give, the same bytes restore to 104.
\<close>

theorem roundtrip_counterexample:
  "nearest_byte 236 (spec_composite 100 (7 / 8)) \<and> (7 / 8 :: rat) < 99 / 100
   \<and> engine_result_byte (loaded_engine (7 / 8)) (flat_canvas 100 100 236) None 1 30 30 0 = Some 103
   \<and> processor_result_byte (loaded_processor (7 / 8)) (flat_image 100 100 236) ''auto'' 255 12120
       = Some 103
   \<and> \<not> within_one 103 100
   \<and> nearest_byte 236 (spec_composite 100 (223 / 255)) \<and> (223 / 255 :: rat) < 99 / 100
   \<and> engine_result_byte (loaded_engine (223 / 255)) (flat_canvas 100 100 236) None 1 30 30 0
       = Some 104
   \<and> processor_result_byte (loaded_processor (223 / 255)) (flat_image 100 100 236) ''auto'' 255
        12120 = Some 104
   \<and> \<not> within_one 104 100"
proof -
  have roi: "engine_in_roi None (flat_canvas 100 100 236) 30 30"
    "engine_entry None (flat_canvas 100 100 236) 30 30 = 490"
    by (simp_all add: engine_in_roi_def engine_entry_def example_canvas_roi)
  have nonneg: "0 \<le> engine_roiX None (flat_canvas 100 100 236)"
    "0 \<le> engine_roiY None (flat_canvas 100 100 236)"
    by (simp_all add: example_canvas_roi)
  have eng: "engine_result_byte (loaded_engine a) (flat_canvas 100 100 236) None 1 30 30 0 =
      Some (if engine_alpha a 1 < ALPHA_THRESHOLD then 236
            else engine_restored (engine_alpha a 1) 255 236)" for a
    unfolding engine_result_byte_def
      engine_process_result [OF loaded_engine_simps(1) example_canvas_roi(4) nonneg]
    using roi by simp
  have tch: "processor_touched \<lparr>pc_size = 48, pc_margin = 32, pc_x = 20, pc_y = 20\<rparr> 100 100 48 12120"
    by (simp add: processor_touched_def processor_in_roi_def)
  have pen: "processor_entry \<lparr>pc_size = 48, pc_margin = 32, pc_x = 20, pc_y = 20\<rparr> 100
      (flat_map 48 a) 48 12120 = Some a" for a
    by (simp add: processor_entry_def f32_get_def)
  have prc: "processor_result_byte (loaded_processor a) (flat_image 100 100 236) ''auto'' 255 12120 =
      Some (if a < ALPHA_THRESHOLD then 236 else processor_restored (Some a) 255 236)" for a
  proof -
    obtain img' where
      q: "processor_process (loaded_processor a) (flat_image 100 100 236) ''auto'' 255 = Inr img'"
      using processor_process_shape by blast
    have "id_data img' ! 12120 =
        (if a < ALPHA_THRESHOLD then 236 else processor_restored (Some a) 255 236)"
      using processor_process_data [OF example_image_config(2) _ q, of 12120] tch pen
      by (simp add: Let_def example_image_config)
    then show ?thesis by (simp add: processor_result_byte_def q)
  qed
  have f1: "\<lfloor>(207::rat) / 2\<rfloor> = 103" by linarith
  have f2: "\<lfloor>(3331::rat) / 32\<rfloor> = 104" by linarith
  have f3: "\<lfloor>(3315::rat) / 32\<rfloor> = 103" by linarith
  have e1: "engine_restored (engine_alpha (7 / 8) 1) 255 236 = 103"
    by (simp add: engine_restored_def engine_alpha_def engine_value_def ToUint8Clamp_def
          MAX_ALPHA_def Let_def)
  have e2: "engine_restored (engine_alpha (223 / 255) 1) 255 236 = 104"
    by (simp add: engine_restored_def engine_alpha_def engine_value_def ToUint8Clamp_def
          MAX_ALPHA_def Let_def f3)
  have p1: "processor_restored (Some (7 / 8)) 255 236 = 103"
    by (simp add: processor_restored_def processor_value_def ToUint8Clamp_def MAX_ALPHA_def
          Let_def f1)
  have p2: "processor_restored (Some (223 / 255)) 255 236 = 104"
    by (simp add: processor_restored_def processor_value_def ToUint8Clamp_def MAX_ALPHA_def
          Let_def f2)
  have t: "\<not> engine_alpha (7 / 8) 1 < ALPHA_THRESHOLD" "\<not> engine_alpha (223 / 255) 1 < ALPHA_THRESHOLD"
    "\<not> (7 / 8 :: rat) < ALPHA_THRESHOLD" "\<not> (223 / 255 :: rat) < ALPHA_THRESHOLD"
    by (simp_all add: engine_alpha_def MAX_ALPHA_def ALPHA_THRESHOLD_def)
  have n: "nearest_byte 236 (spec_composite 100 (7 / 8))"
    "nearest_byte 236 (spec_composite 100 (223 / 255))"
    by (simp_all add: nearest_byte_def spec_composite_def)
  have w: "\<not> within_one 103 100" "\<not> within_one 104 100"
    by (simp_all add: within_one_def)
  have E1: "engine_result_byte (loaded_engine (7 / 8)) (flat_canvas 100 100 236) None 1 30 30 0
      = Some 103"
    unfolding eng using t(1) e1 by (simp only: if_False)
  have E2: "engine_result_byte (loaded_engine (223 / 255)) (flat_canvas 100 100 236) None 1 30 30 0
      = Some 104"
    unfolding eng using t(2) e2 by (simp only: if_False)
  have P1: "processor_result_byte (loaded_processor (7 / 8)) (flat_image 100 100 236) ''auto'' 255
      12120 = Some 103"
    unfolding prc using t(3) p1 by (simp only: if_False)
  have P2: "processor_result_byte (loaded_processor (223 / 255)) (flat_image 100 100 236) ''auto''
      255 12120 = Some 104"
    unfolding prc using t(4) p2 by (simp only: if_False)
  have lt: "(7 / 8 :: rat) < 99 / 100" "(223 / 255 :: rat) < 99 / 100" by simp_all
  from n(1) lt(1) E1 P1 w(1) n(2) lt(2) E2 P2 w(2) show ?thesis by (intro conjI)
qed


lemma engine_alpha_one: "a < 99 / 100 \<Longrightarrow> engine_alpha a 1 = a"
  by (simp add: engine_alpha_def MAX_ALPHA_def Let_def)

text \<open>
  C1, amended. Let a colour channel of a region pixel hold a byte nearest to the
  composite \<open>original * (1 - alpha) + alpha * 255\<close> of an original byte, with the map
  entry \<open>alpha\<close> between 0 and 0.99, and restore with intensity 1 and logo value 255
  (in the engine: on a canvas whose region has a non-negative origin). Then the restored
  byte \<open>r\<close> satisfies \<open>(1 - alpha) * (2 * |r - original| - 1) \<le> 1\<close>, and it is within one
  unit of the original whenever alpha is below 2/3.
\<close>

theorem roundtrip_tolerance:
  "(engine_process e cv forceSize 1 = Inr cv'
      \<and> logoValue e = 255 \<and> engine_alphaMap e forceSize cv = Some am
      \<and> 0 \<le> engine_roiX forceSize cv \<and> 0 \<le> engine_roiY forceSize cv
      \<and> engine_in_roi forceSize cv x y
      \<and> engine_entry forceSize cv x y < length (am_data am)
      \<and> a = am_data am ! engine_entry forceSize cv x y
      \<and> 0 \<le> a \<and> a < 99 / 100 \<and> c < 3
      \<and> nearest_byte (cv_bitmap cv x y c) (spec_composite (of_nat (unat original)) a)
      \<longrightarrow> (1 - a) * (2 * \<bar>of_nat (unat (cv_bitmap cv' x y c)) - of_nat (unat original)\<bar> - 1) \<le> 1
          \<and> (a < 2 / 3 \<longrightarrow> within_one (cv_bitmap cv' x y c) original))
   \<and> (let w = id_width img; h = id_height img; cfg = processor_config w h forceMode;
           ms = nat (pc_size cfg)
       in processor_process p img forceMode 255 = Inr img'
          \<and> processor_alphaMap p img forceMode = Some pm
          \<and> j < length (id_data img)
          \<and> processor_touched cfg w h ms j
          \<and> processor_entry cfg w pm ms j = Some b
          \<and> 0 \<le> b \<and> b < 99 / 100
          \<and> nearest_byte (id_data img ! j) (spec_composite (of_nat (unat original)) b)
          \<longrightarrow> (1 - b) * (2 * \<bar>of_nat (unat (id_data img' ! j)) - of_nat (unat original)\<bar> - 1) \<le> 1
              \<and> (b < 2 / 3 \<longrightarrow> within_one (id_data img' ! j) original))"
proof (intro conjI)
  show "engine_process e cv forceSize 1 = Inr cv'
      \<and> logoValue e = 255 \<and> engine_alphaMap e forceSize cv = Some am
      \<and> 0 \<le> engine_roiX forceSize cv \<and> 0 \<le> engine_roiY forceSize cv
      \<and> engine_in_roi forceSize cv x y
      \<and> engine_entry forceSize cv x y < length (am_data am)
      \<and> a = am_data am ! engine_entry forceSize cv x y
      \<and> 0 \<le> a \<and> a < 99 / 100 \<and> c < 3
      \<and> nearest_byte (cv_bitmap cv x y c) (spec_composite (of_nat (unat original)) a)
      \<longrightarrow> (1 - a) * (2 * \<bar>of_nat (unat (cv_bitmap cv' x y c)) - of_nat (unat original)\<bar> - 1) \<le> 1
          \<and> (a < 2 / 3 \<longrightarrow> within_one (cv_bitmap cv' x y c) original)"
  proof (intro impI, elim conjE)
    assume r: "engine_process e cv forceSize 1 = Inr cv'"
      and lv: "logoValue e = 255"
      and am: "engine_alphaMap e forceSize cv = Some am"
      and roi: "0 \<le> engine_roiX forceSize cv" "0 \<le> engine_roiY forceSize cv"
      and inside: "engine_in_roi forceSize cv x y"
        "engine_entry forceSize cv x y < length (am_data am)"
      and a: "a = am_data am ! engine_entry forceSize cv x y"
      and a0: "0 \<le> a" and a1: "a < 99 / 100" and c: "c < 3"
      and w: "nearest_byte (cv_bitmap cv x y c) (spec_composite (of_nat (unat original)) a)"
    have rd: "ready e" using engine_process_cases [OF r] by simp
    have al: "engine_alpha (am_data am ! engine_entry forceSize cv x y) 1 = a"
      using engine_alpha_one [OF a1] a by simp
    have le: "a \<le> 99 / 100" using a1 by simp
    from r engine_process_result [OF rd am roi, of 1]
    have "cv' = cv\<lparr>cv_bitmap := \<lambda>x y c.
                if engine_in_roi forceSize cv x y \<and> c < 3
                   \<and> engine_entry forceSize cv x y < length (am_data am)
                   \<and> \<not> engine_alpha (am_data am ! engine_entry forceSize cv x y) 1 < ALPHA_THRESHOLD
                then engine_restored (engine_alpha (am_data am ! engine_entry forceSize cv x y) 1)
                       (logoValue e) (cv_bitmap cv x y c)
                else cv_bitmap cv x y c\<rparr>"
      by simp
    then have "cv_bitmap cv' x y c =
        (if engine_in_roi forceSize cv x y \<and> c < 3
            \<and> engine_entry forceSize cv x y < length (am_data am)
            \<and> \<not> engine_alpha (am_data am ! engine_entry forceSize cv x y) 1 < ALPHA_THRESHOLD
         then engine_restored (engine_alpha (am_data am ! engine_entry forceSize cv x y) 1)
                (logoValue e) (cv_bitmap cv x y c)
         else cv_bitmap cv x y c)"
      by simp
    then have res: "cv_bitmap cv' x y c =
        (if a < ALPHA_THRESHOLD then cv_bitmap cv x y c
         else engine_restored a 255 (cv_bitmap cv x y c))"
      unfolding al lv using inside c by simp
    show "(1 - a) * (2 * \<bar>of_nat (unat (cv_bitmap cv' x y c)) - of_nat (unat original)\<bar> - 1) \<le> 1
          \<and> (a < 2 / 3 \<longrightarrow> within_one (cv_bitmap cv' x y c) original)"
    proof (cases "a < ALPHA_THRESHOLD")
      case True
      with res have "cv_bitmap cv' x y c = cv_bitmap cv x y c" by simp
      with roundtrip_skipped [OF a0 True w] show ?thesis by simp
    next
      case False
      with res have eq: "cv_bitmap cv' x y c = engine_restored a 255 (cv_bitmap cv x y c)"
        by simp
      have n: "nearest_byte (cv_bitmap cv' x y c)
          (spec_restored a (of_nat (unat (cv_bitmap cv x y c))))"
        unfolding eq by (rule engine_restored_nearest [OF le])
      from roundtrip_restored [OF a0 a1 w n] show ?thesis by blast
    qed
  qed
next
  show "let w = id_width img; h = id_height img; cfg = processor_config w h forceMode;
           ms = nat (pc_size cfg)
       in processor_process p img forceMode 255 = Inr img'
          \<and> processor_alphaMap p img forceMode = Some pm
          \<and> j < length (id_data img)
          \<and> processor_touched cfg w h ms j
          \<and> processor_entry cfg w pm ms j = Some b
          \<and> 0 \<le> b \<and> b < 99 / 100
          \<and> nearest_byte (id_data img ! j) (spec_composite (of_nat (unat original)) b)
          \<longrightarrow> (1 - b) * (2 * \<bar>of_nat (unat (id_data img' ! j)) - of_nat (unat original)\<bar> - 1) \<le> 1
              \<and> (b < 2 / 3 \<longrightarrow> within_one (id_data img' ! j) original)"
    unfolding Let_def
  proof (intro impI, elim conjE)
    assume r: "processor_process p img forceMode 255 = Inr img'"
      and m: "processor_alphaMap p img forceMode = Some pm"
      and j: "j < length (id_data img)"
      and t: "processor_touched (processor_config (id_width img) (id_height img) forceMode)
                (id_width img) (id_height img)
                (nat (pc_size (processor_config (id_width img) (id_height img) forceMode))) j"
      and en: "processor_entry (processor_config (id_width img) (id_height img) forceMode)
                 (id_width img) pm
                 (nat (pc_size (processor_config (id_width img) (id_height img) forceMode))) j
               = Some b"
      and b0: "0 \<le> b" and b1: "b < 99 / 100"
      and w: "nearest_byte (id_data img ! j) (spec_composite (of_nat (unat original)) b)"
    have mb: "min b MAX_ALPHA = b" using b1 by (simp add: MAX_ALPHA_def)
    from processor_process_data [OF m j r] t en
    have res: "id_data img' ! j =
        (if b < ALPHA_THRESHOLD then id_data img ! j
         else processor_restored (Some b) 255 (id_data img ! j))"
      by (simp add: Let_def)
    show "(1 - b) * (2 * \<bar>of_nat (unat (id_data img' ! j)) - of_nat (unat original)\<bar> - 1) \<le> 1
              \<and> (b < 2 / 3 \<longrightarrow> within_one (id_data img' ! j) original)"
    proof (cases "b < ALPHA_THRESHOLD")
      case True
      with res have "id_data img' ! j = id_data img ! j" by simp
      with roundtrip_skipped [OF b0 True w] show ?thesis by simp
    next
      case False
      with res have eq: "id_data img' ! j = processor_restored (Some b) 255 (id_data img ! j)"
        by simp
      have n: "nearest_byte (id_data img' ! j) (spec_restored b (of_nat (unat (id_data img ! j))))"
        unfolding eq using processor_restored_nearest [of b "id_data img ! j"]
        by (simp only: mb)
      from roundtrip_restored [OF b0 b1 w n] show ?thesis by blast
    qed
  qed
qed


theorem roundtrip_tolerance_witness:
  "nearest_byte 178 (spec_composite (of_nat (unat (100 :: byte))) (1 / 2))
   \<and> (1 / 2 :: rat) < 2 / 3
   \<and> (\<exists>cv'. engine_process (loaded_engine (1 / 2)) (flat_canvas 100 100 178) None 1 = Inr cv'
        \<and> within_one (cv_bitmap cv' 30 30 0) 100)
   \<and> (\<exists>img'. processor_process (loaded_processor (1 / 2)) (flat_image 100 100 178) ''auto'' 255
                 = Inr img'
        \<and> within_one (id_data img' ! 12120) 100)"
proof -
  obtain cv' where
    r: "engine_process (loaded_engine (1 / 2)) (flat_canvas 100 100 178) None 1 = Inr cv'"
    using example_canvas_returns by blast
  obtain img' where
    q: "processor_process (loaded_processor (1 / 2)) (flat_image 100 100 178) ''auto'' 255 = Inr img'"
    using processor_process_shape by blast
  note f = roundtrip_tolerance [where e = "loaded_engine (1 / 2)" and cv = "flat_canvas 100 100 178"
      and forceSize = None and cv' = cv' and am = "flat_map 48 (1 / 2)" and x = 30 and y = 30
      and a = "1 / 2" and c = 0 and original = 100 and img = "flat_image 100 100 178"
      and forceMode = "''auto''" and p = "loaded_processor (1 / 2)" and img' = img'
      and pm = "flat_map 48 (1 / 2)" and j = 12120 and b = "1 / 2"]
  have n: "nearest_byte 178 (spec_composite (of_nat (unat (100 :: byte))) (1 / 2))"
    by (simp add: nearest_byte_def spec_composite_def)
  have roi: "engine_in_roi None (flat_canvas 100 100 178) 30 30"
    "engine_entry None (flat_canvas 100 100 178) 30 30 = 490"
    by (simp_all add: engine_in_roi_def engine_entry_def example_canvas_roi)
  have tch: "processor_touched \<lparr>pc_size = 48, pc_margin = 32, pc_x = 20, pc_y = 20\<rparr> 100 100 48 12120"
    by (simp add: processor_touched_def processor_in_roi_def)
  have pen: "processor_entry \<lparr>pc_size = 48, pc_margin = 32, pc_x = 20, pc_y = 20\<rparr> 100
      (flat_map 48 (1 / 2)) 48 12120 = Some (1 / 2)"
    by (simp add: processor_entry_def f32_get_def)
  have "within_one (cv_bitmap cv' 30 30 0) 100"
    using f r n roi by (simp add: example_canvas_roi)
  moreover have "within_one (id_data img' ! 12120) 100"
    using f q n tch pen by (simp add: Let_def example_image_config)
  moreover have "(1 / 2 :: rat) < 2 / 3" by simp
  moreover note n r q
  ultimately show ?thesis by blast
qed

end
